theory Spec2Isabelle
  imports Main "HOL-Library.AList"
begin

section \<open>JavaScript values\<close>

text \<open>
  The values handled by \<^verbatim>\<open>run_plugins.js\<close>. An object is its kind (plain, array or
  function, the latter identified by a reference) and its own properties in insertion
  order. A property is a data property or the setter-only accessor that
  \<^verbatim>\<open>Object.defineProperty(opts, key, { set })\<close> leaves behind; the flag of an accessor
  records whether it replaced a data property (it then keeps that property's
  \<^verbatim>\<open>configurable: true\<close>) or was created (\<^verbatim>\<open>configurable: false\<close>).
  Numbers are restricted to integers, data properties are writable and configurable, and
  members inherited from the built-in prototypes are not modelled: a read finds own
  properties only. Objects are trees, as a value received over the channel is: no object
  is the value of two properties, so \<^verbatim>\<open>config.component\<close> and \<^verbatim>\<open>config.e2e\<close> are never one
  object. The properties are kept in insertion order; the engine's rule that integer-like
  keys are enumerated first is not modelled.
\<close>

datatype 'v slot = Data 'v | Setter bool string

datatype objkind = Plain | Array | Function nat

datatype jsval =
    JUndefined
  | JNull
  | JBool bool
  | JNum int
  | JStr string
  | JObj objkind "(string \<times> jsval slot) list"

datatype cy_error =
    MIGRATED_OPTION_INVALID string
  | PLUGINS_INVALID_EVENT_NAME_ERROR string string "string list" jsval
  | CONFIG_FILE_SETUP_NODE_EVENTS_ERROR string jsval jsval
  | SETUP_NODE_EVENTS_DO_NOT_SUPPORT_DEV_SERVER string

datatype thrown = TypeError | CypressError cy_error | UserThrown jsval

fun truthy :: "jsval \<Rightarrow> bool" where
  "truthy JUndefined = False"
| "truthy JNull = False"
| "truthy (JBool b) = b"
| "truthy (JNum n) = (n \<noteq> 0)"
| "truthy (JStr s) = (s \<noteq> [])"
| "truthy (JObj k ps) = True"

fun then_do :: "thrown + 'a \<Rightarrow> ('a \<Rightarrow> thrown + 'b) \<Rightarrow> thrown + 'b" where
  "then_do (Inl e) f = Inl e"
| "then_do (Inr x) f = f x"

text \<open>\<^verbatim>\<open>xs.forEach(f)\<close> where \<open>f\<close> mutates the state and may throw.\<close>

fun forEach :: "'a list \<Rightarrow> ('s \<Rightarrow> 'a \<Rightarrow> thrown + 's) \<Rightarrow> 's \<Rightarrow> thrown + 's" where
  "forEach [] f s = Inr s"
| "forEach (x # xs) f s = then_do (f s x) (forEach xs f)"

text \<open>The read \<^verbatim>\<open>o[key]\<close>: a \<^verbatim>\<open>TypeError\<close> on \<^verbatim>\<open>undefined\<close> and \<^verbatim>\<open>null\<close>,
  \<^verbatim>\<open>undefined\<close> for a missing property and for an accessor without getter.\<close>

fun slot_value :: "jsval slot option \<Rightarrow> jsval" where
  "slot_value (Some (Data v)) = v"
| "slot_value (Some (Setter c k)) = JUndefined"
| "slot_value None = JUndefined"

fun getProp :: "jsval \<Rightarrow> string \<Rightarrow> thrown + jsval" where
  "getProp JUndefined key = Inl TypeError"
| "getProp JNull key = Inl TypeError"
| "getProp (JObj k ps) key = Inr (slot_value (map_of ps key))"
| "getProp v key = Inr JUndefined"

section \<open>The migration guard\<close>

definition optionsNonValidFor10Anywhere :: "string list" where
  "optionsNonValidFor10Anywhere = [''integrationFolder'', ''componentFolder'', ''pluginsFile'']"

definition optionsNonValidFor10Global :: "string list" where
  "optionsNonValidFor10Global = [''baseUrl'', ''supportFile'']"

definition testingTypes :: "string list" where
  "testingTypes = [''component'', ''e2e'']"

definition throwInvalidOptionError :: "string \<Rightarrow> thrown + 'a" where
  "throwInvalidOptionError key = Inl (CypressError (MIGRATED_OPTION_INVALID key))"

text \<open>The assignment \<^verbatim>\<open>o[key] = v\<close>. A setter installed by the guard throws; the file is
  not in strict mode, so an assignment on a primitive is dropped.\<close>

fun setProp :: "jsval \<Rightarrow> string \<Rightarrow> jsval \<Rightarrow> thrown + jsval" where
  "setProp JUndefined key v = Inl TypeError"
| "setProp JNull key v = Inl TypeError"
| "setProp (JObj k ps) key v =
     (case map_of ps key of
        Some (Setter c keyForError) \<Rightarrow> throwInvalidOptionError keyForError
      | _ \<Rightarrow> Inr (JObj k (AList.update key (Data v) ps)))"
| "setProp w key v = Inr w"

text \<open>\<^verbatim>\<open>Object.defineProperty(opts, key, { set: throwInvalidOptionError.bind(null, keyForError) })\<close>:
  a new property is a non-configurable accessor, a data property is converted and loses
  its value, a configurable accessor is redefined, a non-configurable one and a
  non-object raise \<^verbatim>\<open>TypeError\<close>.\<close>

fun setInvalidPropSetterWarning :: "jsval \<Rightarrow> string \<Rightarrow> string \<Rightarrow> thrown + jsval" where
  "setInvalidPropSetterWarning (JObj k ps) key keyForError =
     (case map_of ps key of
        None \<Rightarrow> Inr (JObj k (ps @ [(key, Setter False keyForError)]))
      | Some (Data v) \<Rightarrow> Inr (JObj k (AList.update key (Setter True keyForError) ps))
      | Some (Setter True old) \<Rightarrow> Inr (JObj k (AList.update key (Setter True keyForError) ps))
      | Some (Setter False old) \<Rightarrow> Inl TypeError)"
| "setInvalidPropSetterWarning v key keyForError = Inl TypeError"

text \<open>The sub-object \<^verbatim>\<open>options[testingType]\<close> is mutated in place; in a tree the mutated
  sub-object is stored back into the slot it was read from, and no other property sees
  the change. An installation that throws yields the error alone: what it had already
  changed is not kept. Whether the installation completes is the condition of the
  properties below, not one of them.\<close>

fun storeBack :: "jsval \<Rightarrow> string \<Rightarrow> jsval \<Rightarrow> jsval" where
  "storeBack (JObj k ps) key v =
     (case map_of ps key of
        Some (Data old) \<Rightarrow> JObj k (AList.update key (Data v) ps)
      | _ \<Rightarrow> JObj k ps)"
| "storeBack w key v = w"

definition wrapTestingType :: "string \<Rightarrow> jsval \<Rightarrow> string \<Rightarrow> thrown + jsval" where
  "wrapTestingType key options testingType =
     then_do (getProp options testingType) (\<lambda>cur.
     then_do (setProp options testingType (if truthy cur then cur else JObj Plain [])) (\<lambda>options1.
     then_do (getProp options1 testingType) (\<lambda>sub.
     then_do (setInvalidPropSetterWarning sub key (testingType @ ''.'' @ key)) (\<lambda>sub'.
     Inr (storeBack options1 testingType sub')))))"

definition wrapNonMigratedOptions :: "jsval \<Rightarrow> thrown + jsval" where
  "wrapNonMigratedOptions options =
     then_do (forEach optionsNonValidFor10Global
                (\<lambda>opts key. setInvalidPropSetterWarning opts key key) options) (\<lambda>options1.
     forEach optionsNonValidFor10Anywhere
       (\<lambda>opts key.
          then_do (setInvalidPropSetterWarning opts key key)
            (forEach testingTypes (wrapTestingType key)))
       options1)"

definition validateScoped :: "string \<Rightarrow> jsval \<Rightarrow> string \<Rightarrow> thrown + jsval" where
  "validateScoped key options testingType =
     then_do (getProp options testingType) (\<lambda>sub.
       if truthy sub then
         then_do (getProp sub key) (\<lambda>v.
           if truthy v then throwInvalidOptionError (testingType @ ''.'' @ key)
           else Inr options)
       else Inr options)"

definition validateNonMigratedOptions :: "jsval \<Rightarrow> thrown + jsval" where
  "validateNonMigratedOptions options =
     then_do (forEach optionsNonValidFor10Global
                (\<lambda>opts key.
                   then_do (getProp opts key) (\<lambda>v.
                     if truthy v then throwInvalidOptionError key else Inr opts))
                options) (\<lambda>options1.
     forEach optionsNonValidFor10Anywhere
       (\<lambda>opts key.
          then_do (getProp opts key) (\<lambda>v.
            if truthy v then throwInvalidOptionError key
            else forEach testingTypes (validateScoped key) opts))
       options1)"

section \<open>The event registry\<close>

text \<open>
  A handler is an object, callable (kind \<open>Function\<close>) or not, with plain data properties
  in insertion order; for the event \<^verbatim>\<open>task\<close> its properties are the task mapping.
  A call of \<^verbatim>\<open>registerChildEvent\<close> is the event name, the handler and the configuration
  object as it is at that moment (it is handed to the validator and read for
  \<^verbatim>\<open>initialConfig.testingType\<close>). The validator \<^verbatim>\<open>validate_event.js\<close> is a parameter.
  The instance records what it sends with \<^verbatim>\<open>ipc.send\<close> and the warnings it logs, in
  order; sending does not throw. The counter is a JavaScript number, exact below
  \<open>2\<^sup>5\<^sup>3\<close>, and is counted here in natural numbers.
\<close>

datatype handler = Handler objkind "(string \<times> jsval) list"

record registration =
  event :: string
  handler :: handler

record validation =
  isValid :: bool
  userEvents :: "string list option"
  error :: jsval

datatype cy_warning = DUPLICATE_TASK_KEY "string list"

datatype ipc_arg =
    ArgNull
  | ArgValue jsval
  | ArgSerializedError thrown

type_synonym ipc_message = "string \<times> ipc_arg list"

record RunPlugins =
  requiredFile :: string
  eventIdCount :: nat
  registrations :: "(string \<times> nat) list"
  registeredEventsById :: "(nat \<times> registration) list"
  registeredEventsByName :: "(string \<times> nat) list"
  ipc_sent :: "ipc_message list"
  warnings :: "cy_warning list"

type_synonym validator = "string \<Rightarrow> handler \<Rightarrow> jsval \<Rightarrow> validation"

definition constructor :: "string \<Rightarrow> RunPlugins" where
  "constructor file =
     \<lparr>requiredFile = file, eventIdCount = 0, registrations = [],
      registeredEventsById = [], registeredEventsByName = [],
      ipc_sent = [], warnings = []\<rparr>"

definition ipc_send :: "string \<Rightarrow> ipc_arg list \<Rightarrow> RunPlugins \<Rightarrow> RunPlugins" where
  "ipc_send channel args s = s\<lparr>ipc_sent := ipc_sent s @ [(channel, args)]\<rparr>"

text \<open>\<^verbatim>\<open>this.registeredEventsByName[event]\<close> used as a condition: a missing entry and the
  id \<open>0\<close> are both falsy.\<close>

definition truthyEventId :: "RunPlugins \<Rightarrow> string \<Rightarrow> nat option" where
  "truthyEventId s ev =
     (case map_of (registeredEventsByName s) ev of
        Some eventId \<Rightarrow> if eventId = 0 then None else Some eventId
      | None \<Rightarrow> None)"

definition lodash_keys :: "handler \<Rightarrow> string list" where
  "lodash_keys h = (case h of Handler k ps \<Rightarrow> remdups (map fst ps))"

definition lodash_intersection :: "string list \<Rightarrow> string list \<Rightarrow> string list" where
  "lodash_intersection xs ys = remdups (filter (\<lambda>x. x \<in> set ys) xs)"

text \<open>\<^verbatim>\<open>_.extend(target, events)\<close>: for every key of \<open>events\<close>, in order, the assignment
  \<^verbatim>\<open>target[key] = events[key]\<close>; the result is \<open>target\<close> itself.\<close>

definition lodash_extend :: "handler \<Rightarrow> handler \<Rightarrow> handler" where
  "lodash_extend target events =
     (case (target, events) of
        (Handler k ps, Handler k' qs) \<Rightarrow>
          Handler k (fold (\<lambda>key acc. case map_of qs key of
                                     Some v \<Rightarrow> AList.update key v acc
                                   | None \<Rightarrow> acc)
                       (lodash_keys events) ps))"

definition taskMerge :: "handler \<Rightarrow> handler \<Rightarrow> RunPlugins \<Rightarrow> handler \<times> RunPlugins" where
  "taskMerge target events s =
     (let duplicates = lodash_intersection (lodash_keys target) (lodash_keys events);
          s1 = (if duplicates \<noteq> [] then s\<lparr>warnings := warnings s @ [DUPLICATE_TASK_KEY duplicates]\<rparr>
                else s)
      in (lodash_extend target events, s1))"

definition registerChildEvent ::
  "validator \<Rightarrow> string \<times> handler \<times> jsval \<Rightarrow> RunPlugins \<Rightarrow> thrown + RunPlugins" where
  "registerChildEvent validateEvent call s =
     (case call of (ev, h, initialConfig) \<Rightarrow>
      let v = validateEvent ev h initialConfig in
      if \<not> isValid v then
        (case userEvents v of
           Some ue \<Rightarrow>
             Inr (ipc_send ''setupTestingType:error''
                   [ArgSerializedError (CypressError
                      (PLUGINS_INVALID_EVENT_NAME_ERROR (requiredFile s) ev ue (error v)))] s)
         | None \<Rightarrow>
             then_do (getProp initialConfig ''testingType'') (\<lambda>testingType.
               Inr (ipc_send ''setupTestingType:error''
                     [ArgSerializedError (CypressError
                        (CONFIG_FILE_SETUP_NODE_EVENTS_ERROR (requiredFile s) testingType
                           (error v)))] s)))
      else if ev = ''dev-server:start'' \<and> truthyEventId s ev \<noteq> None then
        Inr (ipc_send ''setupTestingType:error''
              [ArgSerializedError (CypressError
                 (SETUP_NODE_EVENTS_DO_NOT_SUPPORT_DEV_SERVER (requiredFile s)))] s)
      else
        (case (if ev = ''task'' then truthyEventId s ev else None) of
           Some existingEventId \<Rightarrow>
             (case map_of (registeredEventsById s) existingEventId of
                None \<Rightarrow> Inl TypeError
              | Some existing \<Rightarrow>
                  (case taskMerge (handler existing) h s of
                     (merged, s1) \<Rightarrow>
                       Inr (s1\<lparr>registeredEventsById :=
                              AList.update existingEventId \<lparr>event = ev, handler = merged\<rparr>
                                (registeredEventsById s1)\<rparr>)))
         | None \<Rightarrow>
             (let eventId = eventIdCount s in
              Inr (s\<lparr>eventIdCount := eventId + 1,
                     registeredEventsById :=
                       AList.update eventId \<lparr>event = ev, handler = h\<rparr> (registeredEventsById s),
                     registeredEventsByName :=
                       AList.update ev eventId (registeredEventsByName s),
                     registrations := registrations s @ [(ev, eventId)]\<rparr>))))"

text \<open>A sequence of calls made by one piece of code: a call that throws ends the sequence,
  and what the earlier calls did stays done.\<close>

fun run_calls ::
  "('c \<Rightarrow> 's \<Rightarrow> thrown + 's) \<Rightarrow> 'c list \<Rightarrow> 's \<Rightarrow> 's \<times> thrown option" where
  "run_calls f [] s = (s, None)"
| "run_calls f (c # cs) s =
     (case f c s of Inl e \<Rightarrow> (s, Some e) | Inr s' \<Rightarrow> run_calls f cs s')"

text \<open>The two placeholders \<^verbatim>\<open>() => {}\<close> registered by \<^verbatim>\<open>load\<close> before the setup routine
  runs.\<close>

definition noop :: handler where
  "noop = Handler (Function 0) []"

definition internalCalls :: "jsval \<Rightarrow> (string \<times> handler \<times> jsval) list" where
  "internalCalls initialConfig =
     [(''_get:task:body'', noop, initialConfig), (''_get:task:keys'', noop, initialConfig)]"

text \<open>The registry of a session: a fresh instance, the two internal registrations, then
  the registration calls made while \<^verbatim>\<open>load\<close> runs, in call order (those of the setup
  routine and, after it, the one of the default preprocessor).\<close>

definition session ::
  "validator \<Rightarrow> string \<Rightarrow> jsval \<Rightarrow> (string \<times> handler \<times> jsval) list
     \<Rightarrow> RunPlugins \<times> thrown option" where
  "session validateEvent file initialConfig calls =
     run_calls (registerChildEvent validateEvent) (internalCalls initialConfig @ calls)
       (constructor file)"

section \<open>Predicates used to state the properties of the guard\<close>

fun slot_of :: "jsval \<Rightarrow> string \<Rightarrow> jsval slot option" where
  "slot_of (JObj k ps) key = map_of ps key"
| "slot_of v key = None"

fun is_setter :: "jsval slot option \<Rightarrow> string \<Rightarrow> bool" where
  "is_setter (Some (Setter c k)) keyForError = (k = keyForError)"
| "is_setter s keyForError = False"

definition trapped :: "jsval \<Rightarrow> string \<Rightarrow> string \<Rightarrow> bool" where
  "trapped obj key keyForError = is_setter (slot_of obj key) keyForError"

definition sub_trapped :: "jsval \<Rightarrow> string \<Rightarrow> string \<Rightarrow> bool" where
  "sub_trapped obj testingType key =
     (case slot_of obj testingType of
        Some (Data sub) \<Rightarrow> trapped sub key (testingType @ ''.'' @ key)
      | _ \<Rightarrow> False)"

definition anywhereStep :: "jsval \<Rightarrow> string \<Rightarrow> thrown + jsval" where
  "anywhereStep opts key =
     then_do (setInvalidPropSetterWarning opts key key)
       (forEach testingTypes (wrapTestingType key))"

definition present_truthy :: "jsval \<Rightarrow> string \<Rightarrow> bool" where
  "present_truthy obj key = (case getProp obj key of Inr v \<Rightarrow> truthy v | Inl e \<Rightarrow> False)"

definition scoped_truthy :: "jsval \<Rightarrow> string \<Rightarrow> string \<Rightarrow> bool" where
  "scoped_truthy obj testingType key =
     (case getProp obj testingType of Inr sub \<Rightarrow> present_truthy sub key | Inl e \<Rightarrow> False)"

definition offending :: "jsval \<Rightarrow> bool" where
  "offending options \<longleftrightarrow>
     (\<exists>key\<in>set (optionsNonValidFor10Global @ optionsNonValidFor10Anywhere).
        present_truthy options key)
   \<or> (\<exists>key\<in>set optionsNonValidFor10Anywhere. \<exists>tt\<in>set testingTypes.
        scoped_truthy options tt key)"

definition scopedErr :: "jsval \<Rightarrow> string \<Rightarrow> thrown" where
  "scopedErr options key =
     (if present_truthy options key then CypressError (MIGRATED_OPTION_INVALID key)
      else case List.find (\<lambda>tt. scoped_truthy options tt key) testingTypes of
             Some tt \<Rightarrow> CypressError (MIGRATED_OPTION_INVALID (tt @ ''.'' @ key))
           | None \<Rightarrow> TypeError)"

text \<open>The value read from a property, \<^verbatim>\<open>undefined\<close> outside objects.\<close>

definition read :: "jsval \<Rightarrow> string \<Rightarrow> jsval" where
  "read obj key = slot_value (slot_of obj key)"

text \<open>Concrete configuration objects on which the theorems are evaluated.\<close>

definition cfgA :: jsval where
  "cfgA = JObj Plain [(''baseUrl'', Data (JStr ''http://localhost'')), (''video'', Data (JBool True)),
       (''e2e'', Data (JObj Plain [(''specPattern'', Data (JStr ''cypress/e2e''))]))]"

definition cfgA' :: jsval where
  "cfgA' = JObj Plain
       [(''baseUrl'', Setter True ''baseUrl''),
        (''video'', Data (JBool True)),
        (''e2e'',
         Data
          (JObj Plain
            [(''specPattern'', Data (JStr ''cypress/e2e'')),
             (''integrationFolder'', Setter False ''e2e.integrationFolder''),
             (''componentFolder'', Setter False ''e2e.componentFolder''),
             (''pluginsFile'', Setter False ''e2e.pluginsFile'')])),
        (''supportFile'', Setter False ''supportFile''),
        (''integrationFolder'', Setter False ''integrationFolder''),
        (''component'',
         Data
          (JObj Plain
            [(''integrationFolder'', Setter False ''component.integrationFolder''),
             (''componentFolder'', Setter False ''component.componentFolder''),
             (''pluginsFile'', Setter False ''component.pluginsFile'')])),
        (''componentFolder'', Setter False ''componentFolder''),
        (''pluginsFile'', Setter False ''pluginsFile'')]"

definition cfgBad :: jsval where
  "cfgBad = JObj Plain [(''e2e'', Data (JObj Plain [(''pluginsFile'', Data (JStr ''plugins.js''))]))]"

section \<open>Predicates used to state the properties of the registry\<close>

text \<open>The branch of \<^verbatim>\<open>registerChildEvent\<close> that a call takes, by the conditions of the
  source in their order.\<close>

datatype path = Rejected | DevServerDuplicate | TaskMerge nat | Allocate

definition registration_path ::
  "validator \<Rightarrow> string \<times> handler \<times> jsval \<Rightarrow> RunPlugins \<Rightarrow> path" where
  "registration_path validateEvent call s =
     (case call of (ev, h, initialConfig) \<Rightarrow>
        if \<not> isValid (validateEvent ev h initialConfig) then Rejected
        else if ev = ''dev-server:start'' \<and> truthyEventId s ev \<noteq> None then DevServerDuplicate
        else (case (if ev = ''task'' then truthyEventId s ev else None) of
                Some existingEventId \<Rightarrow> TaskMerge existingEventId
              | None \<Rightarrow> Allocate))"

definition props_of :: "handler \<Rightarrow> (string \<times> jsval) list" where
  "props_of h = (case h of Handler k ps \<Rightarrow> ps)"

text \<open>A Registration exists for an event: some id is bound to a record with that
  event.\<close>

definition registered_as :: "RunPlugins \<Rightarrow> nat \<Rightarrow> string \<Rightarrow> handler \<Rightarrow> bool" where
  "registered_as s eventId ev h \<longleftrightarrow>
     map_of (registeredEventsById s) eventId = Some \<lparr>event = ev, handler = h\<rparr>"

text \<open>What every registry reached from the constructor satisfies: the projection list
  carries the ids \<open>0, 1, \<dots>\<close> in order, every id below the counter and no other is bound
  to exactly one record, the record of an id has the event it was allocated for, and the
  name index points to a record of that name.\<close>

definition ids_in_order :: "RunPlugins \<Rightarrow> bool" where
  "ids_in_order s \<longleftrightarrow>
     map snd (registrations s) = [0..<eventIdCount s]
   \<and> distinct (map fst (registeredEventsById s))
   \<and> set (map fst (registeredEventsById s)) = {0..<eventIdCount s}
   \<and> (\<forall>(ev, eventId)\<in>set (registrations s).
         \<exists>h. registered_as s eventId ev h)
   \<and> (\<forall>ev eventId. map_of (registeredEventsByName s) ev = Some eventId \<longrightarrow>
         (\<exists>h. registered_as s eventId ev h))"

text \<open>What holds in addition once the first internal event holds id \<open>0\<close>: the events
  \<^verbatim>\<open>task\<close> and \<^verbatim>\<open>dev-server:start\<close> have at most one record each, under a non-zero id that
  the name index points to.\<close>

definition single_binding :: "RunPlugins \<Rightarrow> bool" where
  "single_binding s \<longleftrightarrow>
     0 < eventIdCount s
   \<and> (\<forall>ev\<in>{''task'', ''dev-server:start''}. \<forall>eventId h.
         registered_as s eventId ev h \<longrightarrow>
           eventId \<noteq> 0 \<and> map_of (registeredEventsByName s) ev = Some eventId)"

section \<open>Concrete sessions on which the theorems are evaluated\<close>

definition sampleEvents :: "string list" where
  "sampleEvents = [''_get:task:body'', ''_get:task:keys'', ''task'', ''dev-server:start'',
                   ''file:preprocessor'', ''after:run'']"

text \<open>A validator that accepts the event names above, whatever the handler.\<close>

definition sampleValidator :: validator where
  "sampleValidator ev h cfg =
     \<lparr>isValid = (ev \<in> set sampleEvents), userEvents = Some [''task'', ''after:run''],
      error = JStr ''invalid event name''\<rparr>"

definition sampleConfig :: jsval where
  "sampleConfig = JObj Plain [(''testingType'', Data (JStr ''e2e''))]"

definition fn :: "nat \<Rightarrow> jsval" where
  "fn ref = JObj (Function ref) []"

definition taskA :: handler where
  "taskA = Handler Plain [(''a'', fn 1), (''b'', fn 2)]"

definition taskB :: handler where
  "taskB = Handler Plain [(''b'', fn 3), (''c'', fn 4)]"

definition taskAB :: handler where
  "taskAB = Handler Plain [(''a'', fn 1), (''b'', fn 3), (''c'', fn 4)]"

definition devHandler :: handler where
  "devHandler = Handler (Function 5) []"

definition sampleCalls :: "(string \<times> handler \<times> jsval) list" where
  "sampleCalls =
     [(''task'', taskA, sampleConfig),
      (''bogus'', devHandler, sampleConfig),
      (''dev-server:start'', devHandler, sampleConfig)]"

definition sampleError :: ipc_message where
  "sampleError =
     (''setupTestingType:error'',
      [ArgSerializedError (CypressError
         (PLUGINS_INVALID_EVENT_NAME_ERROR ''cypress.config.js'' ''bogus''
            [''task'', ''after:run''] (JStr ''invalid event name'')))])"

definition sampleState :: RunPlugins where
  "sampleState =
     \<lparr>requiredFile = ''cypress.config.js'', eventIdCount = 4,
      registrations = [(''_get:task:body'', 0), (''_get:task:keys'', 1), (''task'', 2),
                       (''dev-server:start'', 3)],
      registeredEventsById =
        [(0, \<lparr>event = ''_get:task:body'', handler = noop\<rparr>),
         (1, \<lparr>event = ''_get:task:keys'', handler = noop\<rparr>),
         (2, \<lparr>event = ''task'', handler = taskA\<rparr>),
         (3, \<lparr>event = ''dev-server:start'', handler = devHandler\<rparr>)],
      registeredEventsByName =
        [(''_get:task:body'', 0), (''_get:task:keys'', 1), (''task'', 2),
         (''dev-server:start'', 3)],
      ipc_sent = [sampleError], warnings = []\<rparr>"

section \<open>Invoking handlers\<close>

text \<open>
  What calling a function leads to, seen from \<^verbatim>\<open>Promise.try(...)\<close>: a value (returned, or
  the value a returned promise fulfils with), a throw or rejection, or a promise that
  never settles. The behaviour of the function references is a parameter.
\<close>

datatype settle = Resolves jsval | Rejects thrown | NeverSettles

type_synonym behaviour = "nat \<Rightarrow> jsval list \<Rightarrow> settle"

record ids =
  eventId :: nat
  invocationId :: string

definition UNDEFINED_SERIALIZED :: string where
  "UNDEFINED_SERIALIZED = ''__cypress_undefined__''"

text \<open>\<^verbatim>\<open>invoke = (eventId, args = []) => this.registeredEventsById[eventId].handler(...args)\<close>;
  a missing record and a handler that is not callable raise \<^verbatim>\<open>TypeError\<close>.\<close>

definition invoke :: "behaviour \<Rightarrow> RunPlugins \<Rightarrow> nat \<Rightarrow> jsval list \<Rightarrow> settle" where
  "invoke callFn s evId args =
     (case map_of (registeredEventsById s) evId of
        None \<Rightarrow> Rejects TypeError
      | Some ev \<Rightarrow>
          (case handler ev of
             Handler (Function f) ps \<Rightarrow> callFn f args
           | Handler k ps \<Rightarrow> Rejects TypeError))"

text \<open>The method \<^verbatim>\<open>wrapChildPromise(invoke, ids, args = [])\<close> of the class.\<close>

definition wrapChildPromise ::
  "(nat \<Rightarrow> jsval list \<Rightarrow> settle) \<Rightarrow> ids \<Rightarrow> jsval list \<Rightarrow> RunPlugins \<Rightarrow> RunPlugins" where
  "wrapChildPromise target i args s =
     (case target (eventId i) args of
        Resolves v \<Rightarrow>
          ipc_send (''promise:fulfilled:'' @ invocationId i)
            [ArgNull, ArgValue (if v = JUndefined then JStr UNDEFINED_SERIALIZED else v)] s
      | Rejects err \<Rightarrow>
          ipc_send (''promise:fulfilled:'' @ invocationId i) [ArgSerializedError err] s
      | NeverSettles \<Rightarrow> s)"

text \<open>Modelled from the spec: \<^verbatim>\<open>util.wrapChildPromise(ipc, invoke, ids, args = [])\<close> of
  \<^verbatim>\<open>lib/plugins/util.js\<close>, which is not among the sources. Section 4.3 of the
  specification: invoke the target, await the result; if the resolved value is undefined,
  substitute the undefined-sentinel; report \<open>{invocationId, error: null, value}\<close> on
  success or \<open>{invocationId, error: serialized, value: undefined}\<close> on rejection.\<close>

definition util_wrapChildPromise ::
  "(nat \<Rightarrow> jsval list \<Rightarrow> settle) \<Rightarrow> ids \<Rightarrow> jsval list \<Rightarrow> RunPlugins \<Rightarrow> RunPlugins" where
  "util_wrapChildPromise target i args s =
     (case target (eventId i) args of
        Resolves v \<Rightarrow>
          ipc_send (''promise:fulfilled:'' @ invocationId i)
            [ArgNull, ArgValue (if v = JUndefined then JStr UNDEFINED_SERIALIZED else v)] s
      | Rejects err \<Rightarrow>
          ipc_send (''promise:fulfilled:'' @ invocationId i) [ArgSerializedError err] s
      | NeverSettles \<Rightarrow> s)"

section \<open>Task sub-dispatch\<close>

text \<open>Decimal notation of an id, as a property key.\<close>

definition digit :: "nat \<Rightarrow> char" where
  "digit d = ''0123456789'' ! d"

function show_nat :: "nat \<Rightarrow> string" where
  "show_nat n = (if n < 10 then [digit n] else show_nat (n div 10) @ [digit (n mod 10)])"
  by pat_completeness auto
termination
  by (relation "measure id") auto

definition js_array :: "jsval list \<Rightarrow> jsval" where
  "js_array xs = JObj Array (zip (map show_nat [0..<length xs]) (map Data xs))"

text \<open>The registry \<^verbatim>\<open>this.registeredEventsById\<close> and its records as the objects they
  are.\<close>

definition handler_value :: "handler \<Rightarrow> jsval" where
  "handler_value h = (case h of Handler k ps \<Rightarrow> JObj k (map (\<lambda>(key, v). (key, Data v)) ps))"

definition registration_value :: "registration \<Rightarrow> jsval" where
  "registration_value r =
     JObj Plain [(''event'', Data (JStr (event r))), (''handler'', Data (handler_value (handler r)))]"

definition registry_value :: "RunPlugins \<Rightarrow> jsval" where
  "registry_value s =
     JObj Plain (map (\<lambda>(i, r). (show_nat i, Data (registration_value r)))
                   (registeredEventsById s))"

text \<open>\<^verbatim>\<open>_.find(this.registeredEventsById, { event: 'task' })\<close>: the record of the least id
  whose event is \<^verbatim>\<open>task\<close>.\<close>

definition taskRegistration :: "RunPlugins \<Rightarrow> registration option" where
  "taskRegistration s =
     (case List.find
             (\<lambda>i. case map_of (registeredEventsById s) i of
                      Some r \<Rightarrow> event r = ''task''
                    | None \<Rightarrow> False)
             (sort (remdups (map fst (registeredEventsById s)))) of
        Some i \<Rightarrow> map_of (registeredEventsById s) i
      | None \<Rightarrow> None)"

text \<open>
  \<^verbatim>\<open>_.get(object, path)\<close> with a string path that is not itself a key: lodash splits the
  path into segments and reads them one after the other, stopping at \<^verbatim>\<open>undefined\<close> and
  \<^verbatim>\<open>null\<close>. A path without brackets is split at its dots; what lodash makes of a path
  with brackets is the parameter \<open>bracketPath\<close>.
\<close>

fun splitDots :: "string \<Rightarrow> string list" where
  "splitDots [] = [[]]"
| "splitDots (c # cs) =
     (if c = CHR ''.'' then [] # splitDots cs
      else (case splitDots cs of
              seg # segs \<Rightarrow> (c # seg) # segs
            | [] \<Rightarrow> [[c]]))"

definition stringToPath :: "(string \<Rightarrow> string list) \<Rightarrow> string \<Rightarrow> string list" where
  "stringToPath bracketPath str =
     (if CHR ''['' \<in> set str \<or> CHR '']'' \<in> set str then bracketPath str else splitDots str)"

fun baseGet :: "jsval \<Rightarrow> string list \<Rightarrow> jsval" where
  "baseGet obj [] = obj"
| "baseGet obj (key # path) =
     (if obj = JUndefined \<or> obj = JNull then JUndefined else baseGet (read obj key) path)"

definition lodash_get :: "(string \<Rightarrow> string list) \<Rightarrow> jsval \<Rightarrow> string \<Rightarrow> jsval" where
  "lodash_get bracketPath obj path = baseGet obj (stringToPath bracketPath path)"

text \<open>The argument of a task: \<^verbatim>\<open>if (arg && arg.__cypress_task_no_argument__) arg = undefined\<close>.\<close>

definition restoreArg :: "jsval \<Rightarrow> jsval" where
  "restoreArg arg =
     (if truthy arg \<and> truthy (read arg ''__cypress_task_no_argument__'') then JUndefined else arg)"

text \<open>The closure \<^verbatim>\<open>invoke\<close> built by \<^verbatim>\<open>taskExecute\<close>, for the task name \<^verbatim>\<open>args[0]\<close>, a
  string.\<close>

definition taskInvoke ::
  "behaviour \<Rightarrow> (string \<Rightarrow> string list) \<Rightarrow> RunPlugins \<Rightarrow> string \<Rightarrow> nat \<Rightarrow> jsval list \<Rightarrow> settle" where
  "taskInvoke callFn bracketPath s task evId args =
     (case lodash_get bracketPath (registry_value s) (show_nat evId @ ''.handler.'' @ task) of
        JObj (Function f) ps \<Rightarrow> callFn f args
      | _ \<Rightarrow> Resolves (JStr ''__cypress_unhandled__''))"

definition taskExecute ::
  "behaviour \<Rightarrow> (string \<Rightarrow> string list) \<Rightarrow> ids \<Rightarrow> string \<Rightarrow> jsval \<Rightarrow> RunPlugins \<Rightarrow> RunPlugins" where
  "taskExecute callFn bracketPath i task arg s =
     util_wrapChildPromise (taskInvoke callFn bracketPath s task) i [restoreArg arg] s"

text \<open>\<^verbatim>\<open>taskGetKeys\<close> and \<^verbatim>\<open>taskGetBody\<close> dereference the result of the search before any
  promise exists. The source text of a function, \<^verbatim>\<open>fn.toString()\<close>, is a parameter; the
  task name \<^verbatim>\<open>args[0]\<close> is a string.\<close>

definition taskGetKeys :: "ids \<Rightarrow> RunPlugins \<Rightarrow> thrown + RunPlugins" where
  "taskGetKeys i s =
     (case taskRegistration s of
        None \<Rightarrow> Inl TypeError
      | Some r \<Rightarrow>
          Inr (util_wrapChildPromise
                 (\<lambda>evId args. Resolves (js_array (map JStr (lodash_keys (handler r))))) i [] s))"

definition taskGetBody :: "(nat \<Rightarrow> string) \<Rightarrow> ids \<Rightarrow> string \<Rightarrow> RunPlugins \<Rightarrow> thrown + RunPlugins" where
  "taskGetBody sourceText i ev s =
     (case taskRegistration s of
        None \<Rightarrow> Inl TypeError
      | Some r \<Rightarrow>
          Inr (util_wrapChildPromise
                 (\<lambda>evId args. Resolves
                    (case map_of (props_of (handler r)) ev of
                       Some (JObj (Function f) ps) \<Rightarrow> JStr (sourceText f)
                     | _ \<Rightarrow> JStr []))
                 i [] s))"

section \<open>Concrete invocations on which the theorems are evaluated\<close>

definition dottedTasks :: handler where
  "dottedTasks = Handler Plain [(''a.b'', fn 7), (''log'', fn 8)]"

definition dottedState :: RunPlugins where
  "dottedState = (constructor ''cypress.config.js'')
     \<lparr>eventIdCount := 3,
      registrations := [(''_get:task:body'', 0), (''_get:task:keys'', 1), (''task'', 2)],
      registeredEventsById :=
        [(0, \<lparr>event = ''_get:task:body'', handler = noop\<rparr>),
         (1, \<lparr>event = ''_get:task:keys'', handler = noop\<rparr>),
         (2, \<lparr>event = ''task'', handler = dottedTasks\<rparr>)],
      registeredEventsByName := [(''_get:task:body'', 0), (''_get:task:keys'', 1), (''task'', 2)]\<rparr>"

text \<open>Function \<open>5\<close> returns nothing, function \<open>6\<close> throws, any other function resolves with
  its own reference followed by its arguments.\<close>

definition echo :: behaviour where
  "echo f args =
     (if f = 5 then Resolves JUndefined
      else if f = 6 then Rejects (UserThrown (JStr ''boom''))
      else Resolves (js_array (JNum (int f) # args)))"

definition noBrackets :: "string \<Rightarrow> string list" where
  "noBrackets str = []"

definition inv1 :: ids where
  "inv1 = \<lparr>eventId = 2, invocationId = ''inv1''\<rparr>"

definition noArgumentMarker :: jsval where
  "noArgumentMarker = JObj Plain [(''__cypress_task_no_argument__'', Data (JBool True))]"

definition sampleSource :: "nat \<Rightarrow> string" where
  "sampleSource f = ''() => null''"

section \<open>Properties of the migration guard\<close>

lemma is_setter_iff: "is_setter s e \<longleftrightarrow> (\<exists>c. s = Some (Setter c e))"
  by (cases "(s, e)" rule: is_setter.cases) auto

lemma then_do_Inr: "then_do m f = Inr y \<longleftrightarrow> (\<exists>x. m = Inr x \<and> f x = Inr y)"
  by (cases m) auto

lemma forEach_establish:
  assumes est: "\<And>s x s'. x \<in> set xs \<Longrightarrow> f s x = Inr s' \<Longrightarrow> Q x s'"
    and pres: "\<And>s x y s'. x \<in> set xs \<Longrightarrow> f s x = Inr s' \<Longrightarrow> Q y s \<Longrightarrow> Q y s'"
  shows "forEach xs f s = Inr s' \<Longrightarrow> (\<forall>y. Q y s \<longrightarrow> Q y s') \<and> (\<forall>x\<in>set xs. Q x s')"
  using est pres
proof (induction xs arbitrary: s)
  case Nil
  then show ?case by simp
next
  case (Cons a xs)
  from Cons.prems(1) obtain s1 where a: "f s a = Inr s1" and r: "forEach xs f s1 = Inr s'"
    by (auto simp: then_do_Inr)
  have ih: "(\<forall>y. Q y s1 \<longrightarrow> Q y s') \<and> (\<forall>x\<in>set xs. Q x s')"
    by (rule Cons.IH[OF r]) (auto intro: Cons.prems(2,3))
  have qa: "Q a s1" using Cons.prems(2)[of a s s1] a by simp
  have pa: "\<And>y. Q y s \<Longrightarrow> Q y s1" using Cons.prems(3)[of a s s1] a by simp
  from ih qa pa show ?case by auto
qed

lemma setInvalid_slot:
  "setInvalidPropSetterWarning obj key kfe = Inr obj' \<Longrightarrow>
     is_setter (slot_of obj' key) kfe \<and> (\<forall>x. x \<noteq> key \<longrightarrow> slot_of obj' x = slot_of obj x)"
  by (cases "(obj, key, kfe)" rule: setInvalidPropSetterWarning.cases)
     (auto split: option.splits slot.splits bool.splits simp: update_conv' map_add_def)

lemma setProp_trapped:
  "trapped obj key kfe \<Longrightarrow> setProp obj key v = Inl (CypressError (MIGRATED_OPTION_INVALID kfe))"
  by (cases "(obj, key, v)" rule: setProp.cases)
     (auto simp: trapped_def throwInvalidOptionError_def split: option.splits slot.splits elim: is_setter.elims)

lemma wrapTestingType_slot:
  assumes "wrapTestingType key obj tt = Inr obj'"
  shows "sub_trapped obj' tt key"
    and "\<And>x. x \<noteq> tt \<Longrightarrow> slot_of obj' x = slot_of obj x"
    and "\<And>key'. sub_trapped obj tt key' \<Longrightarrow> sub_trapped obj' tt key'"
    and "\<And>e. \<not> trapped obj tt e"
proof -
  from assms obtain cur options1 sub sub' where
    g: "getProp obj tt = Inr cur"
    and s: "setProp obj tt (if truthy cur then cur else JObj Plain []) = Inr options1"
    and g1: "getProp options1 tt = Inr sub"
    and d: "setInvalidPropSetterWarning sub key (tt @ ''.'' @ key) = Inr sub'"
    and o: "obj' = storeBack options1 tt sub'"
    unfolding wrapTestingType_def then_do_Inr by blast
  from g1 d obtain k ps where o1: "options1 = JObj k ps"
    by (cases options1) auto
  with s obtain ps0 where ob: "obj = JObj k ps0"
    by (cases obj) (auto split: option.splits slot.splits simp: throwInvalidOptionError_def)
  let ?X = "if truthy cur then cur else JObj Plain []"
  from s ob o1 have ps: "ps = AList.update tt (Data ?X) ps0"
    and ns: "\<not> (\<exists>c e. map_of ps0 tt = Some (Setter c e))"
    by (auto split: option.splits slot.splits simp: throwInvalidOptionError_def)
  from g1 o1 ps have sub: "sub = ?X" by (simp add: update_conv')
  from o o1 ps have o': "obj' = JObj k (AList.update tt (Data sub') ps)"
    by (simp add: update_conv')
  from setInvalid_slot[OF d] have t: "is_setter (slot_of sub' key) (tt @ ''.'' @ key)"
    and u: "\<And>x. x \<noteq> key \<Longrightarrow> slot_of sub' x = slot_of sub x" by auto
  show "sub_trapped obj' tt key" using o' t by (simp add: update_conv' trapped_def sub_trapped_def)
  show "\<And>x. x \<noteq> tt \<Longrightarrow> slot_of obj' x = slot_of obj x"
    using o' ps ob by (simp add: update_conv')
  show "sub_trapped obj' tt key'" if h: "sub_trapped obj tt key'" for key'
  proof (cases "key' = key")
    case True
    then show ?thesis using o' t by (simp add: update_conv' trapped_def sub_trapped_def)
  next
    case False
    from h ob obtain s0 where s0: "map_of ps0 tt = Some (Data s0)"
      and tr: "trapped s0 key' (tt @ ''.'' @ key')"
      by (auto split: option.splits slot.splits simp: sub_trapped_def)
    from tr have "truthy s0" by (cases s0) (auto simp: trapped_def)
    with g ob s0 sub have "sub = s0" by simp
    with u[OF False] tr have "trapped sub' key' (tt @ ''.'' @ key')" by (simp add: trapped_def)
    then show ?thesis using o' by (simp add: update_conv' sub_trapped_def)
  qed
  show "\<not> trapped obj tt e" for e
    using ns ob by (auto simp: trapped_def is_setter_iff)
qed

lemma wrapTestingType_trapped:
  assumes "wrapTestingType key obj tt = Inr obj'" and "trapped obj y e"
  shows "trapped obj' y e"
  using wrapTestingType_slot(2,4)[OF assms(1)] assms(2)
  by (cases "y = tt") (auto simp: trapped_def)

lemma wrapTestingType_sub_trapped:
  assumes "wrapTestingType key obj tt = Inr obj'" and "sub_trapped obj t y"
  shows "sub_trapped obj' t y"
  using wrapTestingType_slot(2,3)[OF assms(1)] assms(2)
  by (cases "t = tt") (auto simp: sub_trapped_def)

lemma setInvalid_trapped:
  assumes "setInvalidPropSetterWarning obj key key = Inr obj'"
  shows "trapped obj' key key" and "\<And>y. trapped obj y y \<Longrightarrow> trapped obj' y y"
    and "\<And>t y. t \<noteq> key \<Longrightarrow> sub_trapped obj t y \<Longrightarrow> sub_trapped obj' t y"
  using setInvalid_slot[OF assms]
  by (auto simp: trapped_def sub_trapped_def)

lemma forEach_invariant_aux:
  "forEach xs f s = Inr s' \<Longrightarrow> P s \<Longrightarrow>
     (\<forall>t x t'. x \<in> set xs \<longrightarrow> f t x = Inr t' \<longrightarrow> P t \<longrightarrow> P t') \<Longrightarrow> P s'"
proof (induction xs arbitrary: s)
  case Nil
  then show ?case by simp
next
  case (Cons a xs)
  from Cons.prems(1) obtain s1 where a: "f s a = Inr s1" and r: "forEach xs f s1 = Inr s'"
    by (auto simp: then_do_Inr)
  have "P s1" using Cons.prems(2,3) a by auto
  moreover have "\<forall>t x t'. x \<in> set xs \<longrightarrow> f t x = Inr t' \<longrightarrow> P t \<longrightarrow> P t'"
    using Cons.prems(3) by auto
  ultimately show ?case using Cons.IH[OF r] by blast
qed

lemma forEach_invariant:
  assumes "\<And>s x s'. x \<in> set xs \<Longrightarrow> f s x = Inr s' \<Longrightarrow> P s \<Longrightarrow> P s'"
  shows "forEach xs f s = Inr s' \<Longrightarrow> P s \<Longrightarrow> P s'"
  using forEach_invariant_aux[of xs f s s' P] assms by blast

lemma anywhereStep_facts:
  assumes k: "key \<in> set optionsNonValidFor10Anywhere"
    and st: "anywhereStep opts key = Inr opts'"
  shows "trapped opts' key key"
    and "\<And>y. trapped opts y y \<Longrightarrow> trapped opts' y y"
    and "\<forall>tt\<in>set testingTypes. sub_trapped opts' tt key"
    and "\<And>y. \<forall>tt\<in>set testingTypes. sub_trapped opts tt y
           \<Longrightarrow> \<forall>tt\<in>set testingTypes. sub_trapped opts' tt y"
proof -
  from st obtain o1 where d: "setInvalidPropSetterWarning opts key key = Inr o1"
    and l: "forEach testingTypes (wrapTestingType key) o1 = Inr opts'"
    unfolding anywhereStep_def then_do_Inr by blast
  have inv: "trapped o1 y e \<Longrightarrow> trapped opts' y e" for y e
    by (rule forEach_invariant[OF _ l, where P="\<lambda>s. trapped s y e"])
       (auto intro: wrapTestingType_trapped)
  have sinv: "sub_trapped o1 t y \<Longrightarrow> sub_trapped opts' t y" for t y
    by (rule forEach_invariant[OF _ l, where P="\<lambda>s. sub_trapped s t y"])
       (auto intro: wrapTestingType_sub_trapped)
  show "trapped opts' key key" using inv setInvalid_trapped(1)[OF d] by blast
  show "trapped opts y y \<Longrightarrow> trapped opts' y y" for y
    using inv setInvalid_trapped(2)[OF d] by blast
  show "\<forall>tt\<in>set testingTypes. sub_trapped opts' tt key"
    using forEach_establish[where Q="\<lambda>tt s. sub_trapped s tt key" and f="wrapTestingType key", OF _ _ l]
      wrapTestingType_slot(1) wrapTestingType_sub_trapped by blast
  have ne: "t \<noteq> key" if "t \<in> set testingTypes" for t
    using k that by (auto simp: testingTypes_def optionsNonValidFor10Anywhere_def)
  show "\<forall>tt\<in>set testingTypes. sub_trapped opts' tt y"
    if "\<forall>tt\<in>set testingTypes. sub_trapped opts tt y" for y
    using that sinv setInvalid_trapped(3)[OF d] ne by blast
qed

lemma wrapNonMigratedOptions_traps:
  assumes "wrapNonMigratedOptions options = Inr options'"
  shows "\<forall>key\<in>set (optionsNonValidFor10Global @ optionsNonValidFor10Anywhere).
           trapped options' key key"
    and "\<forall>key\<in>set optionsNonValidFor10Anywhere. \<forall>tt\<in>set testingTypes.
           sub_trapped options' tt key"
proof -
  let ?g = "\<lambda>opts key. setInvalidPropSetterWarning opts key key"
  from assms obtain o1 where
    p1: "forEach optionsNonValidFor10Global ?g options = Inr o1"
    and p2: "forEach optionsNonValidFor10Anywhere anywhereStep o1 = Inr options'"
    unfolding wrapNonMigratedOptions_def then_do_Inr anywhereStep_def[abs_def] by blast
  have g: "\<forall>x\<in>set optionsNonValidFor10Global. trapped o1 x x"
    using forEach_establish[where Q="\<lambda>y s. trapped s y y" and f="?g", OF _ _ p1]
      setInvalid_trapped(1,2) by blast
  have a: "(\<forall>y. trapped o1 y y \<longrightarrow> trapped options' y y)
            \<and> (\<forall>x\<in>set optionsNonValidFor10Anywhere. trapped options' x x)"
    by (rule forEach_establish[where Q="\<lambda>y s. trapped s y y", OF _ _ p2])
       (auto intro: anywhereStep_facts(1,2))
  show "\<forall>key\<in>set (optionsNonValidFor10Global @ optionsNonValidFor10Anywhere).
           trapped options' key key"
    using g a by auto
  have "(\<forall>y. (\<forall>tt\<in>set testingTypes. sub_trapped o1 tt y)
              \<longrightarrow> (\<forall>tt\<in>set testingTypes. sub_trapped options' tt y))
            \<and> (\<forall>x\<in>set optionsNonValidFor10Anywhere.
                  \<forall>tt\<in>set testingTypes. sub_trapped options' tt x)"
  proof (rule forEach_establish[where Q="\<lambda>y s. \<forall>tt\<in>set testingTypes. sub_trapped s tt y", OF _ _ p2])
    show "\<forall>tt\<in>set testingTypes. sub_trapped s' tt x"
      if "x \<in> set optionsNonValidFor10Anywhere" "anywhereStep s x = Inr s'" for s x s'
      using anywhereStep_facts(3)[OF that] .
    show "\<forall>tt\<in>set testingTypes. sub_trapped s' tt y"
      if "x \<in> set optionsNonValidFor10Anywhere" "anywhereStep s x = Inr s'"
        "\<forall>tt\<in>set testingTypes. sub_trapped s tt y" for s x y s'
      using anywhereStep_facts(4)[OF that] .
  qed
  then show "\<forall>key\<in>set optionsNonValidFor10Anywhere. \<forall>tt\<in>set testingTypes.
           sub_trapped options' tt key" by blast
qed

lemma getProp_truthy: "truthy obj \<Longrightarrow> \<exists>v. getProp obj key = Inr v"
  by (cases obj) auto

lemma forEach_check:
  "(\<forall>x\<in>set xs. f s x = (if bad x then Inl (e x) else Inr s)) \<Longrightarrow>
     forEach xs f s = (case List.find bad xs of None \<Rightarrow> Inr s | Some x \<Rightarrow> Inl (e x))"
  by (induction xs) auto

lemma validateScoped_eq:
  "truthy options \<Longrightarrow>
   validateScoped key options tt =
     (if scoped_truthy options tt key
      then Inl (CypressError (MIGRATED_OPTION_INVALID (tt @ ''.'' @ key))) else Inr options)"
  by (cases options; cases "slot_value (map_of (case options of JObj k ps \<Rightarrow> ps | _ \<Rightarrow> []) tt)")
     (auto simp: validateScoped_def scoped_truthy_def present_truthy_def throwInvalidOptionError_def)

lemma find_SomeD: "List.find P xs = Some x \<Longrightarrow> P x \<and> x \<in> set xs"
  by (induction xs) (auto split: if_splits)

lemma globalCheck_eq:
  "truthy options \<Longrightarrow>
   then_do (getProp options key) (\<lambda>v. if truthy v then throwInvalidOptionError key else Inr options)
     = (if present_truthy options key
        then Inl (CypressError (MIGRATED_OPTION_INVALID key)) else Inr options)"
  by (cases options) (auto simp: present_truthy_def throwInvalidOptionError_def)

lemma anywhereCheck_eq:
  assumes "truthy options"
  shows "then_do (getProp options key) (\<lambda>v.
            if truthy v then throwInvalidOptionError key
            else forEach testingTypes (validateScoped key) options)
     = (if present_truthy options key \<or> (\<exists>tt\<in>set testingTypes. scoped_truthy options tt key)
        then Inl (scopedErr options key) else Inr options)"
proof -
  have "forEach testingTypes (validateScoped key) options =
      (case List.find (\<lambda>tt. scoped_truthy options tt key) testingTypes of
         None \<Rightarrow> Inr options
       | Some tt \<Rightarrow> Inl (CypressError (MIGRATED_OPTION_INVALID (tt @ ''.'' @ key))))"
    by (rule forEach_check) (simp add: validateScoped_eq[OF assms])
  moreover obtain v where "getProp options key = Inr v"
    using getProp_truthy[OF assms] by blast
  ultimately show ?thesis
    by (auto simp: scopedErr_def present_truthy_def throwInvalidOptionError_def
        find_None_iff split: option.splits dest: find_SomeD)
qed

lemma validateNonMigratedOptions_eq:
  assumes "truthy options"
  shows "validateNonMigratedOptions options =
     (case List.find (present_truthy options) optionsNonValidFor10Global of
        Some key \<Rightarrow> Inl (CypressError (MIGRATED_OPTION_INVALID key))
      | None \<Rightarrow>
         (case List.find (\<lambda>key. present_truthy options key
                      \<or> (\<exists>tt\<in>set testingTypes. scoped_truthy options tt key))
                 optionsNonValidFor10Anywhere of
            Some key \<Rightarrow> Inl (scopedErr options key)
          | None \<Rightarrow> Inr options))"
proof -
  have g: "forEach optionsNonValidFor10Global
             (\<lambda>opts key. then_do (getProp opts key) (\<lambda>v.
                if truthy v then throwInvalidOptionError key else Inr opts)) options
          = (case List.find (present_truthy options) optionsNonValidFor10Global of
               None \<Rightarrow> Inr options
             | Some key \<Rightarrow> Inl (CypressError (MIGRATED_OPTION_INVALID key)))"
    by (rule forEach_check) (simp add: globalCheck_eq[OF assms])
  have a: "forEach optionsNonValidFor10Anywhere
             (\<lambda>opts key. then_do (getProp opts key) (\<lambda>v.
                if truthy v then throwInvalidOptionError key
                else forEach testingTypes (validateScoped key) opts)) options
          = (case List.find (\<lambda>key. present_truthy options key
                      \<or> (\<exists>tt\<in>set testingTypes. scoped_truthy options tt key))
                 optionsNonValidFor10Anywhere of
               None \<Rightarrow> Inr options
             | Some key \<Rightarrow> Inl (scopedErr options key))"
    by (rule forEach_check) (simp add: anywhereCheck_eq[OF assms])
  show ?thesis
    unfolding validateNonMigratedOptions_def g
    by (simp add: a split: option.splits)
qed

lemma scopedErr_migrated:
  "present_truthy options key \<or> (\<exists>tt\<in>set testingTypes. scoped_truthy options tt key)
     \<Longrightarrow> \<exists>k. scopedErr options key = CypressError (MIGRATED_OPTION_INVALID k)"
  by (auto simp: scopedErr_def find_None_iff split: option.splits)

lemma validateNonMigratedOptions_offending:
  assumes "truthy options"
  shows "offending options \<Longrightarrow>
           \<exists>k. validateNonMigratedOptions options = Inl (CypressError (MIGRATED_OPTION_INVALID k))"
    and "\<not> offending options \<Longrightarrow> validateNonMigratedOptions options = Inr options"
proof -
  note eq = validateNonMigratedOptions_eq[OF assms]
  show "validateNonMigratedOptions options = Inr options" if "\<not> offending options"
    using that unfolding eq offending_def
    by (auto split: option.splits dest!: find_SomeD simp: find_None_iff)
  show "\<exists>k. validateNonMigratedOptions options = Inl (CypressError (MIGRATED_OPTION_INVALID k))"
    if "offending options"
  proof (cases "List.find (present_truthy options) optionsNonValidFor10Global")
    case (Some key)
    then show ?thesis unfolding eq by simp
  next
    case None
    then have ng: "\<forall>key\<in>set optionsNonValidFor10Global. \<not> present_truthy options key"
      by (simp add: find_None_iff)
    let ?bad = "\<lambda>key. present_truthy options key
                      \<or> (\<exists>tt\<in>set testingTypes. scoped_truthy options tt key)"
    from that ng have "\<exists>key\<in>set optionsNonValidFor10Anywhere. ?bad key"
      unfolding offending_def by auto
    then obtain key where "List.find ?bad optionsNonValidFor10Anywhere = Some key"
      by (cases "List.find ?bad optionsNonValidFor10Anywhere") (auto simp: find_None_iff)
    moreover from this have "?bad key" by (auto dest: find_SomeD)
    ultimately show ?thesis
      unfolding eq using None scopedErr_migrated[of options key] by auto
  qed
qed

lemma setInvalid_read:
  "setInvalidPropSetterWarning obj key kfe = Inr obj' \<Longrightarrow> x \<noteq> key \<Longrightarrow> slot_of obj' x = slot_of obj x"
  using setInvalid_slot by blast

lemma wrapTestingType_sub_fields:
  assumes "wrapTestingType key obj tt = Inr obj'"
  shows "x \<noteq> key \<Longrightarrow> slot_of (read obj' tt) x = slot_of (read obj tt) x"
    and "\<exists>k ps. read obj' tt = JObj k ps"
proof -
  from assms obtain cur options1 sub sub' where
    g: "getProp obj tt = Inr cur"
    and s: "setProp obj tt (if truthy cur then cur else JObj Plain []) = Inr options1"
    and g1: "getProp options1 tt = Inr sub"
    and d: "setInvalidPropSetterWarning sub key (tt @ ''.'' @ key) = Inr sub'"
    and o: "obj' = storeBack options1 tt sub'"
    unfolding wrapTestingType_def then_do_Inr by blast
  from g1 d obtain k ps where o1: "options1 = JObj k ps"
    by (cases options1) auto
  with s obtain ps0 where ob: "obj = JObj k ps0"
    by (cases obj) (auto split: option.splits slot.splits simp: throwInvalidOptionError_def)
  let ?X = "if truthy cur then cur else JObj Plain []"
  from s ob o1 have ps: "ps = AList.update tt (Data ?X) ps0"
    by (auto split: option.splits slot.splits simp: throwInvalidOptionError_def)
  from g1 o1 ps have sub: "sub = ?X" by (simp add: update_conv')
  from o o1 ps have o': "obj' = JObj k (AList.update tt (Data sub') ps)"
    by (simp add: update_conv')
  from o' have r': "read obj' tt = sub'" by (simp add: read_def update_conv')
  from g ob have rc: "read obj tt = cur" by (simp add: read_def)
  have sx: "slot_of ?X x = slot_of cur x" by (cases cur) auto
  show "slot_of (read obj' tt) x = slot_of (read obj tt) x" if "x \<noteq> key"
    using setInvalid_read[OF d that] sub sx r' rc by simp
  from d show "\<exists>k ps. read obj' tt = JObj k ps"
    unfolding r' by (cases sub) (auto split: option.splits slot.splits bool.splits)
qed

lemma anywhereStep_frame:
  assumes k: "key \<in> set optionsNonValidFor10Anywhere"
    and st: "anywhereStep opts key = Inr opts'"
  shows "x \<notin> set testingTypes \<Longrightarrow> x \<noteq> key \<Longrightarrow> slot_of opts' x = slot_of opts x"
    and "tt \<in> set testingTypes \<Longrightarrow> y \<noteq> key \<Longrightarrow>
           slot_of (read opts' tt) y = slot_of (read opts tt) y"
proof -
  from st obtain o1 where d: "setInvalidPropSetterWarning opts key key = Inr o1"
    and l: "forEach testingTypes (wrapTestingType key) o1 = Inr opts'"
    unfolding anywhereStep_def then_do_Inr by blast
  show "slot_of opts' x = slot_of opts x" if "x \<notin> set testingTypes" "x \<noteq> key"
  proof -
    have "slot_of opts' x = slot_of o1 x"
    proof (rule forEach_invariant[OF _ l, where P="\<lambda>s. slot_of s x = slot_of o1 x"])
      fix s t s'
      assume "t \<in> set testingTypes" "wrapTestingType key s t = Inr s'"
        "slot_of s x = slot_of o1 x"
      then show "slot_of s' x = slot_of o1 x"
        using wrapTestingType_slot(2)[of key s t s' x] that(1) by auto
    qed simp
    then show ?thesis using setInvalid_read[OF d that(2)] by simp
  qed
  show "slot_of (read opts' tt) y = slot_of (read opts tt) y"
    if "tt \<in> set testingTypes" "y \<noteq> key"
  proof -
    have ne: "tt \<noteq> key"
      using k that(1) by (auto simp: testingTypes_def optionsNonValidFor10Anywhere_def)
    have "slot_of (read opts' tt) y = slot_of (read o1 tt) y"
    proof (rule forEach_invariant[OF _ l, where P="\<lambda>s. slot_of (read s tt) y = slot_of (read o1 tt) y"])
      fix s t s'
      assume w: "wrapTestingType key s t = Inr s'"
        and p: "slot_of (read s tt) y = slot_of (read o1 tt) y"
      show "slot_of (read s' tt) y = slot_of (read o1 tt) y"
      proof (cases "t = tt")
        case True
        then show ?thesis using wrapTestingType_sub_fields(1)[OF w that(2)] p by simp
      next
        case False
        then have "read s' tt = read s tt"
          using wrapTestingType_slot(2)[OF w, of tt] by (simp add: read_def)
        then show ?thesis using p by simp
      qed
    qed simp
    moreover have "read o1 tt = read opts tt"
      using setInvalid_read[OF d ne] by (simp add: read_def)
    ultimately show ?thesis by simp
  qed
qed

lemma wrapNonMigratedOptions_frame:
  assumes "wrapNonMigratedOptions options = Inr options'"
  shows "x \<notin> set testingTypes \<Longrightarrow>
         x \<notin> set (optionsNonValidFor10Global @ optionsNonValidFor10Anywhere) \<Longrightarrow>
           slot_of options' x = slot_of options x"
    and "tt \<in> set testingTypes \<Longrightarrow> y \<notin> set optionsNonValidFor10Anywhere \<Longrightarrow>
           slot_of (read options' tt) y = slot_of (read options tt) y"
proof -
  let ?g = "\<lambda>opts key. setInvalidPropSetterWarning opts key key"
  from assms obtain o1 where
    p1: "forEach optionsNonValidFor10Global ?g options = Inr o1"
    and p2: "forEach optionsNonValidFor10Anywhere anywhereStep o1 = Inr options'"
    unfolding wrapNonMigratedOptions_def then_do_Inr anywhereStep_def[abs_def] by blast
  show "slot_of options' x = slot_of options x"
    if a: "x \<notin> set testingTypes"
      and b: "x \<notin> set (optionsNonValidFor10Global @ optionsNonValidFor10Anywhere)"
  proof -
    have "slot_of o1 x = slot_of options x"
    proof (rule forEach_invariant[OF _ p1, where P="\<lambda>s. slot_of s x = slot_of options x"])
      fix s k s'
      assume "k \<in> set optionsNonValidFor10Global" "setInvalidPropSetterWarning s k k = Inr s'"
        "slot_of s x = slot_of options x"
      then show "slot_of s' x = slot_of options x"
        using setInvalid_read[of s k k s' x] b by (cases "x = k") auto
    qed simp
    moreover have "slot_of options' x = slot_of o1 x"
    proof (rule forEach_invariant[OF _ p2, where P="\<lambda>s. slot_of s x = slot_of o1 x"])
      fix s k s'
      assume "k \<in> set optionsNonValidFor10Anywhere" "anywhereStep s k = Inr s'"
        "slot_of s x = slot_of o1 x"
      then show "slot_of s' x = slot_of o1 x"
        using anywhereStep_frame(1)[of k s s' x] a b by (cases "x = k") auto
    qed simp
    ultimately show ?thesis by simp
  qed
  show "slot_of (read options' tt) y = slot_of (read options tt) y"
    if a: "tt \<in> set testingTypes" and b: "y \<notin> set optionsNonValidFor10Anywhere"
  proof -
    have ne: "tt \<notin> set optionsNonValidFor10Global"
      using a by (auto simp: testingTypes_def optionsNonValidFor10Global_def)
    have "read o1 tt = read options tt"
    proof (rule forEach_invariant[OF _ p1, where P="\<lambda>s. read s tt = read options tt"])
      fix s k s'
      assume "k \<in> set optionsNonValidFor10Global" "setInvalidPropSetterWarning s k k = Inr s'"
        "read s tt = read options tt"
      then show "read s' tt = read options tt"
        using setInvalid_read[of s k k s' tt] ne by (cases "tt = k") (auto simp: read_def)
    qed simp
    moreover have "slot_of (read options' tt) y = slot_of (read o1 tt) y"
    proof (rule forEach_invariant[OF _ p2, where P="\<lambda>s. slot_of (read s tt) y = slot_of (read o1 tt) y"])
      fix s k s'
      assume "k \<in> set optionsNonValidFor10Anywhere" "anywhereStep s k = Inr s'"
        "slot_of (read s tt) y = slot_of (read o1 tt) y"
      then show "slot_of (read s' tt) y = slot_of (read o1 tt) y"
        using anywhereStep_frame(2)[of k s s' tt y] a b by (cases "y = k") auto
    qed simp
    ultimately show ?thesis by simp
  qed
qed

lemma sub_trapped_object: "sub_trapped obj tt key \<Longrightarrow> \<exists>k ps. getProp obj tt = Inr (JObj k ps)"
proof -
  assume st: "sub_trapped obj tt key"
  then obtain kd ps sub where o: "obj = JObj kd ps" and m: "map_of ps tt = Some (Data sub)"
    and tr: "trapped sub key (tt @ ''.'' @ key)"
    by (cases obj) (auto simp: sub_trapped_def split: option.splits slot.splits)
  from tr obtain k' ps' where "sub = JObj k' ps'" by (cases sub) (auto simp: trapped_def)
  with o m show ?thesis by simp
qed

lemma wrap_cfgA: "wrapNonMigratedOptions cfgA = Inr cfgA'"
  by (simp add: wrapNonMigratedOptions_def cfgA_def cfgA'_def optionsNonValidFor10Global_def
      optionsNonValidFor10Anywhere_def testingTypes_def wrapTestingType_def)

lemma falsy_no_slot: "\<not> truthy v \<Longrightarrow> slot_of v x = None"
  by (cases v) auto

text \<open>
  Claim C3. Once \<^verbatim>\<open>wrapNonMigratedOptions\<close> has installed the guard, an assignment to
  any of \<^verbatim>\<open>baseUrl\<close>, \<^verbatim>\<open>supportFile\<close>, \<^verbatim>\<open>integrationFolder\<close>, \<^verbatim>\<open>componentFolder\<close>,
  \<^verbatim>\<open>pluginsFile\<close> at top level throws the migrated-option error naming that key; an
  assignment to one of the last three on the \<^verbatim>\<open>component\<close> or \<^verbatim>\<open>e2e\<close> sub-object throws
  the same error naming the scoped path; and \<^verbatim>\<open>validateNonMigratedOptions\<close> on a
  returned configuration throws a migrated-option error whenever one of these keys is
  present with a truthy value, at top level or, for the last three, under a testing type.
\<close>

theorem migration_guard:
  "(wrapNonMigratedOptions options = Inr options' \<longrightarrow>
      (\<forall>key\<in>set (optionsNonValidFor10Global @ optionsNonValidFor10Anywhere). \<forall>v.
          setProp options' key v = Inl (CypressError (MIGRATED_OPTION_INVALID key)))
    \<and> (\<forall>key\<in>set optionsNonValidFor10Anywhere. \<forall>tt\<in>set testingTypes.
          \<exists>sub. getProp options' tt = Inr sub
             \<and> (\<forall>v. setProp sub key v
                    = Inl (CypressError (MIGRATED_OPTION_INVALID (tt @ ''.'' @ key))))))
   \<and> (truthy returned \<and> offending returned \<longrightarrow>
        (\<exists>k. validateNonMigratedOptions returned = Inl (CypressError (MIGRATED_OPTION_INVALID k))))"
proof (intro conjI impI ballI allI)
  fix key v
  assume w: "wrapNonMigratedOptions options = Inr options'"
    and k: "key \<in> set (optionsNonValidFor10Global @ optionsNonValidFor10Anywhere)"
  from wrapNonMigratedOptions_traps(1)[OF w] k have "trapped options' key key" by blast
  then show "setProp options' key v = Inl (CypressError (MIGRATED_OPTION_INVALID key))"
    by (rule setProp_trapped)
next
  fix key tt
  assume w: "wrapNonMigratedOptions options = Inr options'"
    and k: "key \<in> set optionsNonValidFor10Anywhere" and t: "tt \<in> set testingTypes"
  from wrapNonMigratedOptions_traps(2)[OF w] k t have st: "sub_trapped options' tt key" by blast
  then obtain kd ps sub where o: "options' = JObj kd ps" and m: "map_of ps tt = Some (Data sub)"
    and tr: "trapped sub key (tt @ ''.'' @ key)"
    by (cases options') (auto simp: sub_trapped_def split: option.splits slot.splits)
  from o m have "getProp options' tt = Inr sub" by simp
  with setProp_trapped[OF tr]
  show "\<exists>sub. getProp options' tt = Inr sub
             \<and> (\<forall>v. setProp sub key v
                    = Inl (CypressError (MIGRATED_OPTION_INVALID (tt @ ''.'' @ key))))"
    by blast
next
  assume "truthy returned \<and> offending returned"
  then show "\<exists>k. validateNonMigratedOptions returned = Inl (CypressError (MIGRATED_OPTION_INVALID k))"
    using validateNonMigratedOptions_offending(1) by blast
qed

text \<open>Claim C3, evaluated on a configuration with a base URL and an \<^verbatim>\<open>e2e\<close> section, and
  on a returned configuration that still carries \<^verbatim>\<open>e2e.pluginsFile\<close>.\<close>

theorem migration_guard_witness:
  "wrapNonMigratedOptions cfgA = Inr cfgA'
   \<and> setProp cfgA' ''baseUrl'' (JStr ''http://example.com'')
        = Inl (CypressError (MIGRATED_OPTION_INVALID ''baseUrl''))
   \<and> (\<exists>sub. getProp cfgA' ''e2e'' = Inr sub
         \<and> (\<forall>v. setProp sub ''integrationFolder'' v
                = Inl (CypressError (MIGRATED_OPTION_INVALID ''e2e.integrationFolder''))))
   \<and> truthy cfgBad \<and> offending cfgBad
   \<and> (\<exists>k. validateNonMigratedOptions cfgBad = Inl (CypressError (MIGRATED_OPTION_INVALID k)))"
proof -
  have b: "truthy cfgBad \<and> offending cfgBad"
    by (simp add: cfgBad_def offending_def scoped_truthy_def present_truthy_def
        optionsNonValidFor10Anywhere_def testingTypes_def)
  from migration_guard[of cfgA cfgA' cfgBad] wrap_cfgA b show ?thesis
    by (simp add: optionsNonValidFor10Global_def optionsNonValidFor10Anywhere_def testingTypes_def)
qed

lemma trapped_reads_undefined: "trapped obj key e \<Longrightarrow> getProp obj key = Inr JUndefined"
  by (cases obj) (auto simp: trapped_def is_setter_iff)

lemma sub_trapped_reads_undefined:
  "sub_trapped obj tt key \<Longrightarrow> getProp (read obj tt) key = Inr JUndefined"
proof -
  assume "sub_trapped obj tt key"
  then obtain sub where "slot_of obj tt = Some (Data sub)"
    and t: "trapped sub key (tt @ ''.'' @ key)"
    by (auto simp: sub_trapped_def split: option.splits slot.splits)
  then have "read obj tt = sub" by (simp add: read_def)
  with trapped_reads_undefined[OF t] show ?thesis by simp
qed

text \<open>
  Claim C10, as the code has it. When \<^verbatim>\<open>wrapNonMigratedOptions\<close> has completed,
  \<^verbatim>\<open>config.component\<close> and \<^verbatim>\<open>config.e2e\<close> are objects; in each of them every property other
  than the three guarded keys is as it was in the sub-object found there, and there is
  none where the configuration had no sub-object (or a falsy value) and one was created;
  at top level every property other than \<^verbatim>\<open>component\<close>, \<^verbatim>\<open>e2e\<close> and the five guarded keys
  keeps its slot; and every guarded key, at top level and in the two sub-objects, reads
  \<^verbatim>\<open>undefined\<close>, whatever it held before.
\<close>

theorem guard_installation_frame:
  assumes "wrapNonMigratedOptions options = Inr options'"
  shows "(\<forall>tt\<in>set testingTypes.
            (\<exists>k ps. getProp options' tt = Inr (JObj k ps))
          \<and> (\<forall>y. y \<notin> set optionsNonValidFor10Anywhere \<longrightarrow>
                 slot_of (read options' tt) y = slot_of (read options tt) y)
          \<and> (\<forall>y. y \<notin> set optionsNonValidFor10Anywhere \<and> \<not> truthy (read options tt) \<longrightarrow>
                 slot_of (read options' tt) y = None)
          \<and> (\<forall>key\<in>set optionsNonValidFor10Anywhere.
                 getProp (read options' tt) key = Inr JUndefined))
       \<and> (\<forall>x. x \<notin> set testingTypes
               \<and> x \<notin> set (optionsNonValidFor10Global @ optionsNonValidFor10Anywhere) \<longrightarrow>
                 slot_of options' x = slot_of options x)
       \<and> (\<forall>key\<in>set (optionsNonValidFor10Global @ optionsNonValidFor10Anywhere).
             getProp options' key = Inr JUndefined)"
proof -
  have a: "\<exists>k ps. getProp options' tt = Inr (JObj k ps)" if "tt \<in> set testingTypes" for tt
  proof -
    have "sub_trapped options' tt ''pluginsFile''"
      using wrapNonMigratedOptions_traps(2)[OF assms] that
      by (simp add: optionsNonValidFor10Anywhere_def)
    then show ?thesis by (rule sub_trapped_object)
  qed
  have b: "slot_of (read options' tt) y = slot_of (read options tt) y"
    if "tt \<in> set testingTypes" "y \<notin> set optionsNonValidFor10Anywhere" for tt y
    using wrapNonMigratedOptions_frame(2)[OF assms that] .
  have c: "slot_of (read options' tt) y = None"
    if "tt \<in> set testingTypes" "y \<notin> set optionsNonValidFor10Anywhere"
      "\<not> truthy (read options tt)" for tt y
    using b[OF that(1,2)] falsy_no_slot[OF that(3)] by simp
  have d: "getProp (read options' tt) key = Inr JUndefined"
    if "tt \<in> set testingTypes" "key \<in> set optionsNonValidFor10Anywhere" for tt key
    using wrapNonMigratedOptions_traps(2)[OF assms] that sub_trapped_reads_undefined by blast
  have e: "slot_of options' x = slot_of options x"
    if "x \<notin> set testingTypes"
      "x \<notin> set (optionsNonValidFor10Global @ optionsNonValidFor10Anywhere)" for x
    using wrapNonMigratedOptions_frame(1)[OF assms that] .
  have f: "getProp options' key = Inr JUndefined"
    if "key \<in> set (optionsNonValidFor10Global @ optionsNonValidFor10Anywhere)" for key
    using wrapNonMigratedOptions_traps(1)[OF assms] that trapped_reads_undefined by blast
  from a b c d e f show ?thesis by blast
qed

text \<open>Claim C10 evaluated: the \<^verbatim>\<open>e2e\<close> section keeps its \<^verbatim>\<open>specPattern\<close>, the
  \<^verbatim>\<open>component\<close> section is created without any other property, the top level keeps
  \<^verbatim>\<open>video\<close>, and \<^verbatim>\<open>baseUrl\<close> reads \<^verbatim>\<open>undefined\<close>.\<close>

theorem guard_installation_frame_witness:
  "wrapNonMigratedOptions cfgA = Inr cfgA'
   \<and> (\<exists>k ps. getProp cfgA' ''e2e'' = Inr (JObj k ps))
   \<and> (\<exists>k ps. getProp cfgA' ''component'' = Inr (JObj k ps))
   \<and> slot_of (read cfgA' ''e2e'') ''specPattern'' = Some (Data (JStr ''cypress/e2e''))
   \<and> \<not> truthy (read cfgA ''component'')
   \<and> slot_of (read cfgA' ''component'') ''specPattern'' = None
   \<and> slot_of cfgA' ''video'' = Some (Data (JBool True))
   \<and> getProp cfgA' ''baseUrl'' = Inr JUndefined
   \<and> getProp (read cfgA' ''e2e'') ''pluginsFile'' = Inr JUndefined"
  using guard_installation_frame[OF wrap_cfgA] wrap_cfgA
  by (simp add: optionsNonValidFor10Global_def optionsNonValidFor10Anywhere_def testingTypes_def
      cfgA_def read_def)

text \<open>Claim C10 as stated fails for a guarded key that had a value: the data property
  \<^verbatim>\<open>baseUrl\<close> becomes an accessor without getter, and its value is gone.\<close>

theorem guard_installation_drops_value:
  "wrapNonMigratedOptions cfgA = Inr cfgA'
   \<and> getProp cfgA ''baseUrl'' = Inr (JStr ''http://localhost'')
   \<and> getProp cfgA' ''baseUrl'' = Inr JUndefined"
  using wrap_cfgA by (simp add: cfgA_def cfgA'_def)

section \<open>Properties of the registry\<close>

lemma registerChildEvent_rejected:
  assumes "registration_path V (ev, h, cfg) s = Rejected"
    and "getProp cfg ''testingType'' = Inr t"
  shows "registerChildEvent V (ev, h, cfg) s =
     Inr (ipc_send ''setupTestingType:error''
       [ArgSerializedError (CypressError
          (case userEvents (V ev h cfg) of
             Some ue \<Rightarrow> PLUGINS_INVALID_EVENT_NAME_ERROR (requiredFile s) ev ue (error (V ev h cfg))
           | None \<Rightarrow> CONFIG_FILE_SETUP_NODE_EVENTS_ERROR (requiredFile s) t
                       (error (V ev h cfg))))] s)"
  using assms
  by (auto simp: registration_path_def registerChildEvent_def Let_def
      split: if_splits option.splits)

lemma registerChildEvent_duplicate:
  assumes "registration_path V (ev, h, cfg) s = DevServerDuplicate"
  shows "registerChildEvent V (ev, h, cfg) s =
     Inr (ipc_send ''setupTestingType:error''
       [ArgSerializedError (CypressError
          (SETUP_NODE_EVENTS_DO_NOT_SUPPORT_DEV_SERVER (requiredFile s)))] s)"
  using assms
  by (auto simp: registration_path_def registerChildEvent_def Let_def
      split: if_splits option.splits)

lemma registerChildEvent_merge:
  assumes "registration_path V (ev, h, cfg) s = TaskMerge i"
  shows "ev = ''task'' \<and> truthyEventId s ''task'' = Some i \<and>
     registerChildEvent V (ev, h, cfg) s =
       (case map_of (registeredEventsById s) i of
          None \<Rightarrow> Inl TypeError
        | Some existing \<Rightarrow>
            Inr ((snd (taskMerge (handler existing) h s))
                  \<lparr>registeredEventsById :=
                     AList.update i \<lparr>event = ev, handler = fst (taskMerge (handler existing) h s)\<rparr>
                       (registeredEventsById (snd (taskMerge (handler existing) h s)))\<rparr>))"
  using assms
  by (auto simp: registration_path_def registerChildEvent_def Let_def
      split: if_splits option.splits prod.splits)

lemma registerChildEvent_allocate:
  assumes "registration_path V (ev, h, cfg) s = Allocate"
  shows "registerChildEvent V (ev, h, cfg) s =
     Inr (s\<lparr>eventIdCount := eventIdCount s + 1,
            registeredEventsById :=
              AList.update (eventIdCount s) \<lparr>event = ev, handler = h\<rparr> (registeredEventsById s),
            registeredEventsByName := AList.update ev (eventIdCount s) (registeredEventsByName s),
            registrations := registrations s @ [(ev, eventIdCount s)]\<rparr>)"
  using assms
  by (auto simp: registration_path_def registerChildEvent_def Let_def
      split: if_splits option.splits)

lemma registerChildEvent_rejected_throws:
  assumes "registration_path V (ev, h, cfg) s = Rejected"
    and "registerChildEvent V (ev, h, cfg) s = Inr s'"
  shows "\<exists>args. s' = ipc_send ''setupTestingType:error'' args s"
  using assms
  by (auto simp: registration_path_def registerChildEvent_def Let_def then_do_Inr
      split: if_splits option.splits)

lemma taskMerge_state:
  "snd (taskMerge target events s) = s\<lparr>warnings := warnings (snd (taskMerge target events s))\<rparr>"
  by (simp add: taskMerge_def Let_def)

lemma ipc_send_fields [simp]:
  "eventIdCount (ipc_send c a s) = eventIdCount s"
  "registrations (ipc_send c a s) = registrations s"
  "registeredEventsById (ipc_send c a s) = registeredEventsById s"
  "registeredEventsByName (ipc_send c a s) = registeredEventsByName s"
  "warnings (ipc_send c a s) = warnings s"
  "requiredFile (ipc_send c a s) = requiredFile s"
  "ipc_sent (ipc_send c a s) = ipc_sent s @ [(c, a)]"
  by (simp_all add: ipc_send_def)

lemma taskMerge_fields [simp]:
  "eventIdCount (snd (taskMerge t e s)) = eventIdCount s"
  "registrations (snd (taskMerge t e s)) = registrations s"
  "registeredEventsById (snd (taskMerge t e s)) = registeredEventsById s"
  "registeredEventsByName (snd (taskMerge t e s)) = registeredEventsByName s"
  "requiredFile (snd (taskMerge t e s)) = requiredFile s"
  "ipc_sent (snd (taskMerge t e s)) = ipc_sent s"
  by (simp_all add: taskMerge_def Let_def)

lemma registered_as_ipc_send [simp]:
  "registered_as (ipc_send c a s) = registered_as s"
  by (simp add: registered_as_def fun_eq_iff)

lemma ids_in_order_ipc_send [simp]: "ids_in_order (ipc_send c a s) = ids_in_order s"
  by (simp add: ids_in_order_def)

lemma single_binding_ipc_send [simp]: "single_binding (ipc_send c a s) = single_binding s"
  by (simp add: single_binding_def)

lemma registerChildEvent_cases:
  assumes "registerChildEvent V (ev, h, cfg) s = Inr s'"
  obtains (report) args where "registration_path V (ev, h, cfg) s \<in> {Rejected, DevServerDuplicate}"
      "s' = ipc_send ''setupTestingType:error'' args s"
  | (merge) i existing where "registration_path V (ev, h, cfg) s = TaskMerge i"
      "ev = ''task''" "truthyEventId s ''task'' = Some i"
      "map_of (registeredEventsById s) i = Some existing"
      "s' = (snd (taskMerge (handler existing) h s))
              \<lparr>registeredEventsById :=
                 AList.update i \<lparr>event = ev, handler = fst (taskMerge (handler existing) h s)\<rparr>
                   (registeredEventsById s)\<rparr>"
  | (allocate) "registration_path V (ev, h, cfg) s = Allocate"
      "s' = s\<lparr>eventIdCount := eventIdCount s + 1,
            registeredEventsById :=
              AList.update (eventIdCount s) \<lparr>event = ev, handler = h\<rparr> (registeredEventsById s),
            registeredEventsByName := AList.update ev (eventIdCount s) (registeredEventsByName s),
            registrations := registrations s @ [(ev, eventIdCount s)]\<rparr>"
proof (cases "registration_path V (ev, h, cfg) s")
  case Rejected
  with registerChildEvent_rejected_throws[OF Rejected assms] report show ?thesis by auto
next
  case DevServerDuplicate
  with registerChildEvent_duplicate[OF DevServerDuplicate] assms report show ?thesis by auto
next
  case (TaskMerge i)
  from registerChildEvent_merge[OF TaskMerge] assms merge[OF TaskMerge] show ?thesis
    by (auto split: option.splits)
next
  case Allocate
  from registerChildEvent_allocate[OF Allocate] assms allocate[OF Allocate] show ?thesis by auto
qed

lemma truthyEventId_Some:
  "truthyEventId s ev = Some i \<longleftrightarrow> map_of (registeredEventsByName s) ev = Some i \<and> i \<noteq> 0"
  by (auto simp: truthyEventId_def split: option.splits)

lemma truthyEventId_None:
  "truthyEventId s ev = None \<longleftrightarrow>
     map_of (registeredEventsByName s) ev = None \<or> map_of (registeredEventsByName s) ev = Some 0"
  by (auto simp: truthyEventId_def split: option.splits)

lemma update_existing_keys:
  "map_of al k = Some v \<Longrightarrow> map fst (AList.update k v' al) = map fst al"
  by (induction al) (auto split: if_splits)

lemma update_fresh_keys:
  "k \<notin> set (map fst al) \<Longrightarrow> AList.update k v al = al @ [(k, v)]"
  by (induction al) auto

lemma ids_in_order_step:
  assumes r: "registerChildEvent V (ev, h, cfg) s = Inr s'" and inv: "ids_in_order s"
  shows "ids_in_order s'"
  using r
proof (cases rule: registerChildEvent_cases)
  case (report args)
  then show ?thesis using inv by simp
next
  case (merge i existing)
  let ?m = "fst (taskMerge (handler existing) h s)"
  from merge(3) have bn: "map_of (registeredEventsByName s) ''task'' = Some i"
    by (simp add: truthyEventId_Some)
  with inv obtain h0 where "registered_as s i ''task'' h0" unfolding ids_in_order_def by blast
  with merge(4) have ex: "event existing = ''task''" by (auto simp: registered_as_def)
  have keys: "map fst (registeredEventsById s') = map fst (registeredEventsById s)"
    using merge(4,5) by (simp add: update_existing_keys)
  have reg: "\<exists>h'. registered_as s' j e h'" if "registered_as s j e h0" for j e h0
    using that merge(4,5) ex merge(2) by (cases "j = i") (auto simp: registered_as_def update_conv')
  show ?thesis
    using inv keys reg unfolding ids_in_order_def
    by (simp add: merge(5)) blast
next
  case allocate
  let ?n = "eventIdCount s"
  from inv have fresh: "?n \<notin> set (map fst (registeredEventsById s))"
    unfolding ids_in_order_def by simp
  have byid: "registeredEventsById s' = registeredEventsById s @ [(?n, \<lparr>event = ev, handler = h\<rparr>)]"
    using allocate(2) update_fresh_keys[OF fresh] by simp
  have new: "registered_as s' ?n ev h"
    using allocate(2) by (simp add: registered_as_def update_conv')
  have old: "registered_as s' j e h0" if "registered_as s j e h0" for j e h0
  proof -
    from that have "j \<in> set (map fst (registeredEventsById s))"
      by (auto simp: registered_as_def dest!: map_of_SomeD intro: rev_image_eqI)
    with fresh have "j \<noteq> ?n" by (auto simp: image_iff)
    with that show ?thesis using allocate(2) by (simp add: registered_as_def update_conv')
  qed
  have c1: "map snd (registrations s') = [0..<eventIdCount s']"
    using inv allocate(2) by (simp add: ids_in_order_def)
  have c2: "distinct (map fst (registeredEventsById s'))"
    using inv fresh byid by (simp add: ids_in_order_def)
  have c3: "set (map fst (registeredEventsById s')) = {0..<eventIdCount s'}"
    using inv byid allocate(2) by (auto simp: ids_in_order_def)
  have c4: "\<forall>(e, j)\<in>set (registrations s'). \<exists>h'. registered_as s' j e h'"
    using inv new old allocate(2) by (fastforce simp: ids_in_order_def)
  have c5: "\<forall>e j. map_of (registeredEventsByName s') e = Some j \<longrightarrow> (\<exists>h'. registered_as s' j e h')"
  proof (intro allI impI)
    fix e j assume a: "map_of (registeredEventsByName s') e = Some j"
    show "\<exists>h'. registered_as s' j e h'"
    proof (cases "e = ev")
      case True
      with a allocate(2) have "j = ?n" by (simp add: update_conv')
      with new True show ?thesis by blast
    next
      case False
      with a allocate(2) have "map_of (registeredEventsByName s) e = Some j"
        by (simp add: update_conv')
      with inv old show ?thesis unfolding ids_in_order_def by blast
    qed
  qed
  from c1 c2 c3 c4 c5 show ?thesis unfolding ids_in_order_def by blast
qed

lemma single_binding_step:
  assumes r: "registerChildEvent V (ev, h, cfg) s = Inr s'" and inv: "single_binding s"
  shows "single_binding s'"
  using r
proof (cases rule: registerChildEvent_cases)
  case (report args)
  then show ?thesis using inv by simp
next
  case (merge i existing)
  from merge(3) have bn: "map_of (registeredEventsByName s) ''task'' = Some i" and i0: "i \<noteq> 0"
    by (simp_all add: truthyEventId_Some)
  have keys: "map fst (registeredEventsById s') = map fst (registeredEventsById s)"
    using merge(4,5) by (simp add: update_existing_keys)
  have reg: "j \<noteq> 0 \<and> map_of (registeredEventsByName s') e = Some j"
    if "registered_as s' j e h0" "e \<in> {''task'', ''dev-server:start''}" for j e h0
  proof (cases "j = i")
    case True
    with that(1) merge(5,2) have "e = ''task''"
      by (auto simp: registered_as_def update_conv')
    with True i0 bn merge(5) show ?thesis by simp
  next
    case False
    with that(1) merge(5) have "registered_as s j e h0"
      by (simp add: registered_as_def update_conv')
    with inv that(2) merge(5) show ?thesis unfolding single_binding_def by auto
  qed
  show ?thesis
    unfolding single_binding_def
  proof (intro conjI ballI allI impI)
    show "0 < eventIdCount s'" using inv merge(5) by (simp add: single_binding_def)
  qed (use reg in blast)+
next
  case allocate
  let ?n = "eventIdCount s"
  from inv have n0: "0 < ?n" by (simp add: single_binding_def)
  have reg: "j \<noteq> 0 \<and> map_of (registeredEventsByName s') e = Some j"
    if a: "registered_as s' j e h0" and e: "e \<in> {''task'', ''dev-server:start''}" for j e h0
  proof (cases "j = ?n")
    case True
    with a allocate(2) have "e = ev" by (auto simp: registered_as_def update_conv')
    with True n0 allocate(2) show ?thesis by (simp add: update_conv')
  next
    case False
    with a allocate(2) have old: "registered_as s j e h0"
      by (simp add: registered_as_def update_conv')
    with inv e have j: "j \<noteq> 0" "map_of (registeredEventsByName s) e = Some j"
      unfolding single_binding_def by auto
    then have t: "truthyEventId s e = Some j" by (simp add: truthyEventId_Some)
    have "e \<noteq> ev"
    proof
      assume "e = ev"
      with t e allocate(1) show False
        by (auto simp: registration_path_def split: if_splits option.splits)
    qed
    with j allocate(2) show ?thesis by (simp add: update_conv')
  qed
  show ?thesis
    unfolding single_binding_def
  proof (intro conjI ballI allI impI)
    show "0 < eventIdCount s'" using allocate(2) by simp
  qed (use reg in blast)+
qed

lemma run_calls_invariant:
  assumes step: "\<And>c s s'. f c s = Inr s' \<Longrightarrow> P s \<Longrightarrow> P s'"
  shows "P s \<Longrightarrow> P (fst (run_calls f cs s))"
proof (induction cs arbitrary: s)
  case Nil
  then show ?case by simp
next
  case (Cons c cs)
  show ?case
  proof (cases "f c s")
    case (Inl e)
    then show ?thesis using Cons.prems by simp
  next
    case (Inr s')
    then show ?thesis using Cons.IH[OF step[OF Inr Cons.prems]] by simp
  qed
qed

lemma ids_in_order_constructor: "ids_in_order (constructor file)"
  by (simp add: ids_in_order_def constructor_def)

lemma ids_in_order_run:
  "ids_in_order s \<Longrightarrow> ids_in_order (fst (run_calls (registerChildEvent V) calls s))"
proof (rule run_calls_invariant)
  fix c s s'
  assume "registerChildEvent V c s = Inr s'" "ids_in_order s"
  then show "ids_in_order s'" using ids_in_order_step[of V "fst c" "fst (snd c)" "snd (snd c)" s s'] by simp
qed

lemma single_binding_run:
  "single_binding s \<Longrightarrow> single_binding (fst (run_calls (registerChildEvent V) calls s))"
proof (rule run_calls_invariant)
  fix c s s'
  assume "registerChildEvent V c s = Inr s'" "single_binding s"
  then show "single_binding s'" using single_binding_step[of V "fst c" "fst (snd c)" "snd (snd c)" s s'] by simp
qed

lemma ids_in_order_session: "ids_in_order (fst (session V file cfg calls))"
  unfolding session_def by (rule ids_in_order_run[OF ids_in_order_constructor])

lemma single_binding_session:
  assumes "isValid (V ''_get:task:body'' noop cfg)"
  shows "single_binding (fst (session V file cfg calls))"
proof -
  let ?s1 = "(constructor file)\<lparr>eventIdCount := 1,
            registeredEventsById := [(0, \<lparr>event = ''_get:task:body'', handler = noop\<rparr>)],
            registeredEventsByName := [(''_get:task:body'', 0)],
            registrations := [(''_get:task:body'', 0)]\<rparr>"
  have p: "registration_path V (''_get:task:body'', noop, cfg) (constructor file) = Allocate"
    using assms by (simp add: registration_path_def)
  have f: "registerChildEvent V (''_get:task:body'', noop, cfg) (constructor file) = Inr ?s1"
    unfolding registerChildEvent_allocate[OF p] by (simp add: constructor_def)
  have b: "single_binding ?s1"
    by (auto simp: single_binding_def registered_as_def constructor_def split: if_splits)
  have e: "session V file cfg calls =
      run_calls (registerChildEvent V) ((''_get:task:keys'', noop, cfg) # calls) ?s1"
    unfolding session_def internalCalls_def by (simp add: f)
  show ?thesis unfolding e by (rule single_binding_run[OF b])
qed

lemma fold_assign:
  "map_of (fold (\<lambda>key acc. case m key of Some v \<Rightarrow> AList.update key v acc | None \<Rightarrow> acc) keys ps)
     = map_of ps ++ (m |` set keys)"
proof (induction keys arbitrary: ps)
  case Nil
  then show ?case by simp
next
  case (Cons k keys)
  show ?case
    by (auto simp: Cons.IH update_conv' map_add_def restrict_map_def fun_eq_iff
        split: option.splits)
qed

lemma lodash_extend_props:
  "map_of (props_of (lodash_extend target events))
     = map_of (props_of target) ++ map_of (props_of events)"
proof (cases target; cases events)
  fix k ps k' qs
  assume t: "target = Handler k ps" and e: "events = Handler k' qs"
  have "map_of qs |` set (remdups (map fst qs)) = map_of qs"
    by (auto simp: restrict_map_def fun_eq_iff map_of_eq_None_iff[symmetric]
        simp del: map_of_eq_None_iff)
  then show ?thesis
    by (simp add: t e lodash_extend_def props_of_def lodash_keys_def fold_assign)
qed

lemma lodash_keys_set: "set (lodash_keys h) = dom (map_of (props_of h))"
  by (cases h) (simp add: lodash_keys_def props_of_def dom_map_of_conv_image_fst)

lemma lodash_intersection_set: "set (lodash_intersection xs ys) = set xs \<inter> set ys"
  by (auto simp: lodash_intersection_def)

lemma taskMerge_eq:
  "taskMerge target events s =
     (lodash_extend target events,
      s\<lparr>warnings := warnings s @
          (if lodash_intersection (lodash_keys target) (lodash_keys events) = [] then []
           else [DUPLICATE_TASK_KEY (lodash_intersection (lodash_keys target) (lodash_keys events))])\<rparr>)"
  by (simp add: taskMerge_def Let_def)

lemma sample_session:
  "session sampleValidator ''cypress.config.js'' sampleConfig sampleCalls = (sampleState, None)"
  by (simp add: session_def internalCalls_def sampleCalls_def registerChildEvent_def
      sampleValidator_def sampleEvents_def constructor_def truthyEventId_def ipc_send_def
      sampleState_def sampleError_def Let_def)

lemma sample_accepts: "isValid (sampleValidator ''_get:task:body'' noop sampleConfig)"
  by (simp add: sampleValidator_def sampleEvents_def)

lemma sample_task_merge:
  "registerChildEvent sampleValidator (''task'', taskB, sampleConfig) sampleState
       = Inr (sampleState\<lparr>registeredEventsById :=
                AList.update 2 \<lparr>event = ''task'', handler = taskAB\<rparr>
                  (registeredEventsById sampleState),
              warnings := [DUPLICATE_TASK_KEY [''b'']]\<rparr>)"
  by (simp add: registerChildEvent_def sampleValidator_def sampleEvents_def truthyEventId_def
      sampleState_def taskMerge_def lodash_intersection_def lodash_keys_def lodash_extend_def
      taskA_def taskB_def taskAB_def Let_def)

text \<open>
  Claim C2. In the registry of a session (a fresh instance, the two internal
  registrations, then any sequence of registration calls) the ids of the projection list
  are \<open>0, 1, 2, \<dots>\<close> in call order up to the counter, every id below the counter and
  no other is bound to exactly one record, and each projection's id is bound to a record
  of its event. The counter starts at \<open>0\<close>. A call that allocates appends its event with
  the current counter and advances the counter by one; a call on the rejection, the
  dev-server-duplicate or the task-merge path leaves the counter and the list as they are.
\<close>

theorem ids_assigned_in_call_order:
  "(let s = fst (session validateEvent file initialConfig calls) in
      map snd (registrations s) = [0..<eventIdCount s]
    \<and> distinct (map fst (registeredEventsById s))
    \<and> set (map fst (registeredEventsById s)) = {0..<eventIdCount s}
    \<and> (\<forall>(ev, eventId)\<in>set (registrations s). \<exists>h. registered_as s eventId ev h))
   \<and> eventIdCount (constructor file) = 0
   \<and> (\<forall>s'. registerChildEvent validateEvent call s = Inr s' \<longrightarrow>
         (if registration_path validateEvent call s = Allocate
          then eventIdCount s' = eventIdCount s + 1
             \<and> registrations s' = registrations s @ [(fst call, eventIdCount s)]
          else eventIdCount s' = eventIdCount s \<and> registrations s' = registrations s))"
proof -
  have a: "ids_in_order (fst (session validateEvent file initialConfig calls))"
    by (rule ids_in_order_session)
  have b: "if registration_path validateEvent call s = Allocate
          then eventIdCount s' = eventIdCount s + 1
             \<and> registrations s' = registrations s @ [(fst call, eventIdCount s)]
          else eventIdCount s' = eventIdCount s \<and> registrations s' = registrations s"
    if r: "registerChildEvent validateEvent call s = Inr s'" for s'
  proof -
    obtain ev h cfg where c: "call = (ev, h, cfg)" by (cases call) auto
    from r[unfolded c] show ?thesis unfolding c
      by (cases rule: registerChildEvent_cases) auto
  qed
  from a b show ?thesis
    unfolding ids_in_order_def Let_def by (simp add: constructor_def)
qed

text \<open>Claim C2 evaluated on a session that registers a task mapping, an unknown event
  and a dev server.\<close>

theorem ids_assigned_in_call_order_witness:
  "fst (session sampleValidator ''cypress.config.js'' sampleConfig sampleCalls) = sampleState
   \<and> map snd (registrations sampleState) = [0, 1, 2, 3]
   \<and> eventIdCount sampleState = 4
   \<and> registerChildEvent sampleValidator (''after:run'', devHandler, sampleConfig) sampleState
       = Inr (sampleState\<lparr>eventIdCount := 5,
                registeredEventsById := registeredEventsById sampleState
                   @ [(4, \<lparr>event = ''after:run'', handler = devHandler\<rparr>)],
                registeredEventsByName := registeredEventsByName sampleState @ [(''after:run'', 4)],
                registrations := registrations sampleState @ [(''after:run'', 4)]\<rparr>)
   \<and> registration_path sampleValidator (''after:run'', devHandler, sampleConfig) sampleState
       = Allocate
   \<and> registration_path sampleValidator (''task'', taskB, sampleConfig) sampleState = TaskMerge 2
   \<and> registerChildEvent sampleValidator (''task'', taskB, sampleConfig) sampleState
       = Inr (sampleState\<lparr>registeredEventsById :=
                AList.update 2 \<lparr>event = ''task'', handler = taskAB\<rparr>
                  (registeredEventsById sampleState),
              warnings := [DUPLICATE_TASK_KEY [''b'']]\<rparr>)
   \<and> eventIdCount (sampleState\<lparr>registeredEventsById :=
                AList.update 2 \<lparr>event = ''task'', handler = taskAB\<rparr>
                  (registeredEventsById sampleState),
              warnings := [DUPLICATE_TASK_KEY [''b'']]\<rparr>) = 4"
proof -
  have p1: "registration_path sampleValidator (''after:run'', devHandler, sampleConfig) sampleState
       = Allocate"
    by (simp add: registration_path_def sampleValidator_def sampleEvents_def
        truthyEventId_def sampleState_def)
  have p2: "registration_path sampleValidator (''task'', taskB, sampleConfig) sampleState
       = TaskMerge 2"
    by (simp add: registration_path_def sampleValidator_def sampleEvents_def
        truthyEventId_def sampleState_def)
  have r: "registerChildEvent sampleValidator (''after:run'', devHandler, sampleConfig) sampleState
       = Inr (sampleState\<lparr>eventIdCount := 5,
                registeredEventsById := registeredEventsById sampleState
                   @ [(4, \<lparr>event = ''after:run'', handler = devHandler\<rparr>)],
                registeredEventsByName := registeredEventsByName sampleState @ [(''after:run'', 4)],
                registrations := registrations sampleState @ [(''after:run'', 4)]\<rparr>)"
    by (simp add: registerChildEvent_def sampleValidator_def sampleEvents_def
        truthyEventId_def sampleState_def Let_def)
  have c: "eventIdCount sampleState = 4" by (simp add: sampleState_def)
  from ids_assigned_in_call_order[of sampleValidator "''cypress.config.js''" sampleConfig
      sampleCalls "(''task'', taskB, sampleConfig)" sampleState]
  show ?thesis
    unfolding sample_session Let_def
    by (simp add: p1 p2 r c sample_task_merge) (simp add: sampleState_def)
qed

text \<open>
  Claim C5. A call whose event the validator rejects, and a second
  \<^verbatim>\<open>dev-server:start\<close> call, sends one \<^verbatim>\<open>setupTestingType:error\<close> message with the
  matching error, returns without throwing, leaves the counter, the projection list and
  both indexes as they are, and the calls after it are processed from that state. The
  configuration is an object, as it is whenever the setup routine runs.
\<close>

theorem rejected_registration_reports_and_continues:
  assumes p: "registration_path V (ev, h, cfg) s \<in> {Rejected, DevServerDuplicate}"
    and c: "cfg = JObj k ps"
  shows "\<exists>err. registerChildEvent V (ev, h, cfg) s
             = Inr (ipc_send ''setupTestingType:error''
                      [ArgSerializedError (CypressError err)] s)
           \<and> (registration_path V (ev, h, cfg) s = DevServerDuplicate \<longrightarrow>
                 err = SETUP_NODE_EVENTS_DO_NOT_SUPPORT_DEV_SERVER (requiredFile s))
           \<and> (registration_path V (ev, h, cfg) s = Rejected \<longrightarrow>
                 err = (case userEvents (V ev h cfg) of
                          Some ue \<Rightarrow> PLUGINS_INVALID_EVENT_NAME_ERROR (requiredFile s) ev ue
                                      (error (V ev h cfg))
                        | None \<Rightarrow> CONFIG_FILE_SETUP_NODE_EVENTS_ERROR (requiredFile s)
                                    (read cfg ''testingType'') (error (V ev h cfg))))
           \<and> (let s' = ipc_send ''setupTestingType:error''
                          [ArgSerializedError (CypressError err)] s in
                eventIdCount s' = eventIdCount s
              \<and> registrations s' = registrations s
              \<and> registeredEventsById s' = registeredEventsById s
              \<and> registeredEventsByName s' = registeredEventsByName s
              \<and> run_calls (registerChildEvent V) ((ev, h, cfg) # rest) s
                  = run_calls (registerChildEvent V) rest s')"
proof (cases "registration_path V (ev, h, cfg) s = Rejected")
  case True
  have g: "getProp cfg ''testingType'' = Inr (read cfg ''testingType'')"
    by (simp add: c read_def)
  show ?thesis
    using registerChildEvent_rejected[OF True g] True
    by (auto simp: Let_def split: option.splits)
next
  case False
  with p have d: "registration_path V (ev, h, cfg) s = DevServerDuplicate" by simp
  show ?thesis
    using registerChildEvent_duplicate[OF d] d by (simp add: Let_def)
qed

text \<open>Claim C5 evaluated on the rejected event \<^verbatim>\<open>bogus\<close>, followed by a valid call.\<close>

theorem rejected_registration_witness:
  "registration_path sampleValidator (''bogus'', devHandler, sampleConfig) sampleState = Rejected
   \<and> registration_path sampleValidator (''dev-server:start'', taskB, sampleConfig) sampleState
       = DevServerDuplicate
   \<and> registerChildEvent sampleValidator (''bogus'', devHandler, sampleConfig) sampleState
       = Inr (sampleState\<lparr>ipc_sent := [sampleError, sampleError]\<rparr>)
   \<and> run_calls (registerChildEvent sampleValidator)
        [(''bogus'', devHandler, sampleConfig), (''after:run'', devHandler, sampleConfig)]
        sampleState
       = run_calls (registerChildEvent sampleValidator)
           [(''after:run'', devHandler, sampleConfig)]
           (sampleState\<lparr>ipc_sent := [sampleError, sampleError]\<rparr>)"
proof -
  have p1: "registration_path sampleValidator (''bogus'', devHandler, sampleConfig) sampleState
       = Rejected"
    by (simp add: registration_path_def sampleValidator_def sampleEvents_def)
  have p2: "registration_path sampleValidator (''dev-server:start'', taskB, sampleConfig)
       sampleState = DevServerDuplicate"
    by (simp add: registration_path_def sampleValidator_def sampleEvents_def
        truthyEventId_def sampleState_def)
  have c: "sampleConfig = JObj Plain [(''testingType'', Data (JStr ''e2e''))]"
    by (simp add: sampleConfig_def)
  have e: "ipc_send ''setupTestingType:error''
             [ArgSerializedError (CypressError
                (PLUGINS_INVALID_EVENT_NAME_ERROR (requiredFile sampleState) ''bogus''
                   [''task'', ''after:run''] (JStr ''invalid event name'')))] sampleState
           = sampleState\<lparr>ipc_sent := [sampleError, sampleError]\<rparr>"
    by (simp add: ipc_send_def sampleState_def sampleError_def)
  from rejected_registration_reports_and_continues[of sampleValidator "''bogus''" devHandler
      sampleConfig sampleState Plain "[(''testingType'', Data (JStr ''e2e''))]"
      "[(''after:run'', devHandler, sampleConfig)]"] p1 c
  obtain err where
    r: "registerChildEvent sampleValidator (''bogus'', devHandler, sampleConfig) sampleState
         = Inr (ipc_send ''setupTestingType:error'' [ArgSerializedError (CypressError err)]
                  sampleState)"
    and k: "err = (case userEvents (sampleValidator ''bogus'' devHandler sampleConfig) of
                          Some ue \<Rightarrow> PLUGINS_INVALID_EVENT_NAME_ERROR (requiredFile sampleState)
                                      ''bogus'' ue
                                      (error (sampleValidator ''bogus'' devHandler sampleConfig))
                        | None \<Rightarrow> CONFIG_FILE_SETUP_NODE_EVENTS_ERROR (requiredFile sampleState)
                                    (read sampleConfig ''testingType'')
                                    (error (sampleValidator ''bogus'' devHandler sampleConfig)))"
    and l: "run_calls (registerChildEvent sampleValidator)
             ((''bogus'', devHandler, sampleConfig) # [(''after:run'', devHandler, sampleConfig)])
             sampleState
           = run_calls (registerChildEvent sampleValidator)
               [(''after:run'', devHandler, sampleConfig)]
               (ipc_send ''setupTestingType:error'' [ArgSerializedError (CypressError err)]
                  sampleState)"
    unfolding Let_def by blast
  from k have k': "err = PLUGINS_INVALID_EVENT_NAME_ERROR (requiredFile sampleState) ''bogus''
                   [''task'', ''after:run''] (JStr ''invalid event name'')"
    by (simp add: sampleValidator_def)
  show ?thesis
    using p1 p2 r l unfolding k' e by simp
qed

lemma single_binding_truthy:
  assumes "single_binding s" and "registered_as s i ev h0"
    and "ev \<in> {''task'', ''dev-server:start''}"
  shows "truthyEventId s ev = Some i"
  using assms unfolding single_binding_def truthyEventId_Some by blast

text \<open>
  Claim C6. In a session whose registry holds a \<^verbatim>\<open>dev-server:start\<close> Registration, a
  further valid \<^verbatim>\<open>dev-server:start\<close> call reports
  \<^verbatim>\<open>SETUP_NODE_EVENTS_DO_NOT_SUPPORT_DEV_SERVER\<close>; and any further \<^verbatim>\<open>dev-server:start\<close>
  call that returns leaves the counter, the projection list, both indexes and the
  existing Registration (its id and its handler) unchanged.
\<close>

theorem second_dev_server_registration:
  assumes acc: "isValid (V ''_get:task:body'' noop cfg0)"
    and sess: "s = fst (session V file cfg0 calls)"
    and ex: "registered_as s i ''dev-server:start'' h0"
  shows "(isValid (V ''dev-server:start'' h cfg) \<longrightarrow>
           registerChildEvent V (''dev-server:start'', h, cfg) s
             = Inr (ipc_send ''setupTestingType:error''
                 [ArgSerializedError (CypressError
                    (SETUP_NODE_EVENTS_DO_NOT_SUPPORT_DEV_SERVER (requiredFile s)))] s))
       \<and> (\<forall>s'. registerChildEvent V (''dev-server:start'', h, cfg) s = Inr s' \<longrightarrow>
              eventIdCount s' = eventIdCount s
            \<and> registrations s' = registrations s
            \<and> registeredEventsById s' = registeredEventsById s
            \<and> registeredEventsByName s' = registeredEventsByName s
            \<and> registered_as s' i ''dev-server:start'' h0)"
proof -
  have sb: "single_binding s"
    unfolding sess using acc by (rule single_binding_session[where V=V and cfg=cfg0])
  have t: "truthyEventId s ''dev-server:start'' = Some i"
    using single_binding_truthy[OF sb ex] by simp
  have path: "registration_path V (''dev-server:start'', h, cfg) s \<in> {Rejected, DevServerDuplicate}"
    using t by (simp add: registration_path_def)
  have v: "isValid (V ''dev-server:start'' h cfg) \<Longrightarrow>
      registration_path V (''dev-server:start'', h, cfg) s = DevServerDuplicate"
    using t by (simp add: registration_path_def)
  have u: "eventIdCount s' = eventIdCount s
            \<and> registrations s' = registrations s
            \<and> registeredEventsById s' = registeredEventsById s
            \<and> registeredEventsByName s' = registeredEventsByName s
            \<and> registered_as s' i ''dev-server:start'' h0"
    if r: "registerChildEvent V (''dev-server:start'', h, cfg) s = Inr s'" for s'
    using r
  proof (cases rule: registerChildEvent_cases)
    case (report args)
    then show ?thesis using ex by simp
  next
    case (merge j existing)
    then show ?thesis by simp
  next
    case allocate
    then show ?thesis using path by simp
  qed
  show ?thesis using registerChildEvent_duplicate[OF v] u by blast
qed

text \<open>Claim C6 evaluated on the sample session, whose dev server holds id \<open>3\<close>.\<close>

theorem second_dev_server_registration_witness:
  "isValid (sampleValidator ''_get:task:body'' noop sampleConfig)
   \<and> sampleState = fst (session sampleValidator ''cypress.config.js'' sampleConfig sampleCalls)
   \<and> registered_as sampleState 3 ''dev-server:start'' devHandler
   \<and> isValid (sampleValidator ''dev-server:start'' (Handler (Function 6) []) sampleConfig)
   \<and> registerChildEvent sampleValidator
        (''dev-server:start'', Handler (Function 6) [], sampleConfig) sampleState
       = Inr (ipc_send ''setupTestingType:error''
                 [ArgSerializedError (CypressError
                    (SETUP_NODE_EVENTS_DO_NOT_SUPPORT_DEV_SERVER ''cypress.config.js''))]
                 sampleState)
   \<and> registered_as
        (ipc_send ''setupTestingType:error''
                 [ArgSerializedError (CypressError
                    (SETUP_NODE_EVENTS_DO_NOT_SUPPORT_DEV_SERVER ''cypress.config.js''))]
                 sampleState) 3 ''dev-server:start'' devHandler"
proof -
  have s: "sampleState = fst (session sampleValidator ''cypress.config.js'' sampleConfig sampleCalls)"
    by (simp add: sample_session)
  have e: "registered_as sampleState 3 ''dev-server:start'' devHandler"
    by (simp add: registered_as_def sampleState_def)
  have v: "isValid (sampleValidator ''dev-server:start'' (Handler (Function 6) []) sampleConfig)"
    by (simp add: sampleValidator_def sampleEvents_def)
  have f: "requiredFile sampleState = ''cypress.config.js''" by (simp add: sampleState_def)
  from second_dev_server_registration[OF sample_accepts s e, of "Handler (Function 6) []" sampleConfig]
  show ?thesis using sample_accepts s e v unfolding f by blast
qed

text \<open>
  Claim C1. In a session whose registry holds a \<^verbatim>\<open>task\<close> Registration under id \<open>i\<close>, a
  further valid \<^verbatim>\<open>task\<close> call rebinds id \<open>i\<close> to the merged mapping and changes nothing
  else but the warnings: the ids bound are the same, the counter, the projection list and
  the name index are untouched; the keys of the merged mapping are those of the old and
  of the new mapping; a key of the new mapping holds the new value and any other key its
  old value; and one \<^verbatim>\<open>DUPLICATE_TASK_KEY\<close> warning listing the common keys is emitted
  when there are common keys, none otherwise.
\<close>

theorem task_merge_in_place:
  assumes acc: "isValid (V ''_get:task:body'' noop cfg0)"
    and sess: "s = fst (session V file cfg0 calls)"
    and ex: "registered_as s i ''task'' old"
    and valid: "isValid (V ''task'' new cfg)"
  shows "\<exists>merged dups.
           registerChildEvent V (''task'', new, cfg) s
             = Inr (s\<lparr>registeredEventsById :=
                        AList.update i \<lparr>event = ''task'', handler = merged\<rparr> (registeredEventsById s),
                      warnings := warnings s @ (if dups = [] then [] else [DUPLICATE_TASK_KEY dups])\<rparr>)
         \<and> map fst (AList.update i \<lparr>event = ''task'', handler = merged\<rparr> (registeredEventsById s))
             = map fst (registeredEventsById s)
         \<and> set (lodash_keys merged) = set (lodash_keys old) \<union> set (lodash_keys new)
         \<and> (\<forall>key\<in>set (lodash_keys new). map_of (props_of merged) key = map_of (props_of new) key)
         \<and> (\<forall>key. key \<notin> set (lodash_keys new) \<longrightarrow>
                map_of (props_of merged) key = map_of (props_of old) key)
         \<and> set dups = set (lodash_keys old) \<inter> set (lodash_keys new)"
proof -
  have sb: "single_binding s"
    unfolding sess using acc by (rule single_binding_session[where V=V and cfg=cfg0])
  have t: "truthyEventId s ''task'' = Some i"
    using single_binding_truthy[OF sb ex] by simp
  have path: "registration_path V (''task'', new, cfg) s = TaskMerge i"
    using t valid by (simp add: registration_path_def)
  from ex have m: "map_of (registeredEventsById s) i = Some \<lparr>event = ''task'', handler = old\<rparr>"
    by (simp add: registered_as_def)
  let ?merged = "lodash_extend old new"
  let ?dups = "lodash_intersection (lodash_keys old) (lodash_keys new)"
  have r: "registerChildEvent V (''task'', new, cfg) s
             = Inr (s\<lparr>registeredEventsById :=
                        AList.update i \<lparr>event = ''task'', handler = ?merged\<rparr> (registeredEventsById s),
                      warnings := warnings s @ (if ?dups = [] then [] else [DUPLICATE_TASK_KEY ?dups])\<rparr>)"
    using registerChildEvent_merge[OF path] by (simp add: m taskMerge_eq)
  have k: "map fst (AList.update i \<lparr>event = ''task'', handler = ?merged\<rparr> (registeredEventsById s))
             = map fst (registeredEventsById s)"
    by (rule update_existing_keys[OF m])
  have p: "map_of (props_of ?merged) = map_of (props_of old) ++ map_of (props_of new)"
    by (rule lodash_extend_props)
  have u: "set (lodash_keys ?merged) = set (lodash_keys old) \<union> set (lodash_keys new)"
    by (auto simp: lodash_keys_set p)
  have n: "\<forall>key\<in>set (lodash_keys new). map_of (props_of ?merged) key = map_of (props_of new) key"
    by (auto simp: lodash_keys_set p map_add_def split: option.splits)
  have o: "\<forall>key. key \<notin> set (lodash_keys new) \<longrightarrow>
                map_of (props_of ?merged) key = map_of (props_of old) key"
    by (auto simp: lodash_keys_set p map_add_def domIff split: option.splits)
  have d: "set ?dups = set (lodash_keys old) \<inter> set (lodash_keys new)"
    by (rule lodash_intersection_set)
  from r k u n o d show ?thesis by blast
qed

text \<open>Claim C1 evaluated: merging \<open>{b, c}\<close> into \<open>{a, b}\<close> warns about \<open>b\<close> once.\<close>

theorem task_merge_in_place_witness:
  "isValid (sampleValidator ''_get:task:body'' noop sampleConfig)
   \<and> sampleState = fst (session sampleValidator ''cypress.config.js'' sampleConfig sampleCalls)
   \<and> registered_as sampleState 2 ''task'' taskA
   \<and> isValid (sampleValidator ''task'' taskB sampleConfig)
   \<and> registerChildEvent sampleValidator (''task'', taskB, sampleConfig) sampleState
       = Inr (sampleState\<lparr>registeredEventsById :=
                AList.update 2 \<lparr>event = ''task'', handler = taskAB\<rparr>
                  (registeredEventsById sampleState),
              warnings := [DUPLICATE_TASK_KEY [''b'']]\<rparr>)
   \<and> (\<exists>merged dups.
         registerChildEvent sampleValidator (''task'', taskB, sampleConfig) sampleState
           = Inr (sampleState\<lparr>registeredEventsById :=
                AList.update 2 \<lparr>event = ''task'', handler = merged\<rparr>
                  (registeredEventsById sampleState),
              warnings := warnings sampleState
                 @ (if dups = [] then [] else [DUPLICATE_TASK_KEY dups])\<rparr>)
         \<and> set (lodash_keys merged) = {''a'', ''b'', ''c''}
         \<and> set dups = {''b''})"
proof -
  have s: "sampleState = fst (session sampleValidator ''cypress.config.js'' sampleConfig sampleCalls)"
    by (simp add: sample_session)
  have e: "registered_as sampleState 2 ''task'' taskA"
    by (simp add: registered_as_def sampleState_def)
  have v: "isValid (sampleValidator ''task'' taskB sampleConfig)"
    by (simp add: sampleValidator_def sampleEvents_def)
  note d = sample_task_merge
  have ka: "set (lodash_keys taskA) = {''a'', ''b''}" and kb: "set (lodash_keys taskB) = {''b'', ''c''}"
    by (auto simp: lodash_keys_def taskA_def taskB_def)
  from task_merge_in_place[OF sample_accepts s e v]
  obtain merged dups where
    "registerChildEvent sampleValidator (''task'', taskB, sampleConfig) sampleState
           = Inr (sampleState\<lparr>registeredEventsById :=
                AList.update 2 \<lparr>event = ''task'', handler = merged\<rparr>
                  (registeredEventsById sampleState),
              warnings := warnings sampleState
                 @ (if dups = [] then [] else [DUPLICATE_TASK_KEY dups])\<rparr>)"
    "set (lodash_keys merged) = set (lodash_keys taskA) \<union> set (lodash_keys taskB)"
    "set dups = set (lodash_keys taskA) \<inter> set (lodash_keys taskB)"
    by blast
  then have "\<exists>merged dups.
         registerChildEvent sampleValidator (''task'', taskB, sampleConfig) sampleState
           = Inr (sampleState\<lparr>registeredEventsById :=
                AList.update 2 \<lparr>event = ''task'', handler = merged\<rparr>
                  (registeredEventsById sampleState),
              warnings := warnings sampleState
                 @ (if dups = [] then [] else [DUPLICATE_TASK_KEY dups])\<rparr>)
         \<and> set (lodash_keys merged) = {''a'', ''b'', ''c''}
         \<and> set dups = {''b''}"
    unfolding ka kb by (intro exI[of _ merged] exI[of _ dups]) auto
  with sample_accepts s e v d show ?thesis by blast
qed

section \<open>Properties of the dispatcher\<close>

text \<open>
  Claim C4. Whatever is invoked through \<^verbatim>\<open>wrapChildPromise\<close>: when it resolves to
  \<^verbatim>\<open>undefined\<close> the message carries a null error and the string
  \<^verbatim>\<open>__cypress_undefined__\<close> as value; when it resolves to any other value the message
  carries a null error and that value; when it rejects the message carries the serialized
  error and no value. The message goes to \<^verbatim>\<open>promise:fulfilled:\<close> followed by the
  invocation id of the request.
\<close>

theorem promise_wrapped_outcome:
  "(target (eventId i) args = Resolves JUndefined \<longrightarrow>
      wrapChildPromise target i args s
        = ipc_send (''promise:fulfilled:'' @ invocationId i)
            [ArgNull, ArgValue (JStr ''__cypress_undefined__'')] s)
   \<and> (\<forall>v. target (eventId i) args = Resolves v \<and> v \<noteq> JUndefined \<longrightarrow>
      wrapChildPromise target i args s
        = ipc_send (''promise:fulfilled:'' @ invocationId i) [ArgNull, ArgValue v] s)
   \<and> (\<forall>err. target (eventId i) args = Rejects err \<longrightarrow>
      wrapChildPromise target i args s
        = ipc_send (''promise:fulfilled:'' @ invocationId i) [ArgSerializedError err] s)"
  by (simp add: wrapChildPromise_def UNDEFINED_SERIALIZED_def)

lemma invoke_sample:
  "invoke echo sampleState 3 [] = Resolves JUndefined"
  "invoke echo dottedState 2 [] = Rejects TypeError"
  "invoke echo (sampleState\<lparr>registeredEventsById := [(3, \<lparr>event = ''after:run'', handler = Handler (Function 9) []\<rparr>)]\<rparr>) 3 [JNum 1]
     = Resolves (js_array [JNum 9, JNum 1])"
  by (simp_all add: invoke_def echo_def sampleState_def dottedState_def devHandler_def
      dottedTasks_def)

text \<open>Claim C4 evaluated on a handler that returns nothing, on a record whose handler
  is not callable, and on a function that returns an array.\<close>

theorem promise_wrapped_outcome_witness:
  "invoke echo sampleState 3 [] = Resolves JUndefined
   \<and> wrapChildPromise (invoke echo sampleState) \<lparr>eventId = 3, invocationId = ''inv7''\<rparr> [] sampleState
       = ipc_send ''promise:fulfilled:inv7'' [ArgNull, ArgValue (JStr ''__cypress_undefined__'')]
           sampleState
   \<and> invoke echo dottedState 2 [] = Rejects TypeError
   \<and> wrapChildPromise (invoke echo dottedState) inv1 [] dottedState
       = ipc_send ''promise:fulfilled:inv1'' [ArgSerializedError TypeError] dottedState
   \<and> echo 9 [JNum 1] = Resolves (js_array [JNum 9, JNum 1])
   \<and> js_array [JNum 9, JNum 1] \<noteq> JUndefined
   \<and> wrapChildPromise echo \<lparr>eventId = 9, invocationId = ''inv8''\<rparr> [JNum 1] dottedState
       = ipc_send ''promise:fulfilled:inv8'' [ArgNull, ArgValue (js_array [JNum 9, JNum 1])]
           dottedState"
proof -
  have e: "echo 9 [JNum 1] = Resolves (js_array [JNum 9, JNum 1])"
    by (simp add: echo_def)
  have n: "js_array [JNum 9, JNum 1] \<noteq> JUndefined" by (simp add: js_array_def)
  from promise_wrapped_outcome[of "invoke echo sampleState" "\<lparr>eventId = 3, invocationId = ''inv7''\<rparr>" "[]" sampleState]
    promise_wrapped_outcome[of "invoke echo dottedState" inv1 "[]" dottedState]
    promise_wrapped_outcome[of echo "\<lparr>eventId = 9, invocationId = ''inv8''\<rparr>" "[JNum 1]" dottedState]
    invoke_sample(1,2) e n
  show ?thesis by (simp add: inv1_def)
qed

lemma dotted_session:
  "session sampleValidator ''cypress.config.js'' sampleConfig [(''task'', dottedTasks, sampleConfig)]
     = (dottedState, None)"
  by (simp add: session_def internalCalls_def registerChildEvent_def
      sampleValidator_def sampleEvents_def constructor_def truthyEventId_def
      dottedState_def Let_def)

lemma dotted_lookup:
  "lodash_get bracketPath (registry_value dottedState) (show_nat 2 @ ''.handler.'' @ ''a.b'')
     = JUndefined"
  "lodash_get bracketPath (registry_value dottedState) (show_nat 2 @ ''.handler.'' @ ''log'')
     = fn 8"
  by (simp_all add: lodash_get_def stringToPath_def registry_value_def registration_value_def
      handler_value_def dottedState_def dottedTasks_def digit_def read_def fn_def)

text \<open>
  Claim C7 at a task name with a dot. The session registers the mapping
  \<open>{"a.b": f7, "log": f8}\<close>; the name \<^verbatim>\<open>a.b\<close> maps to the callable \<open>f7\<close>, and
  \<^verbatim>\<open>taskGetBody\<close> finds it under that name; \<^verbatim>\<open>taskExecute\<close> looks the name up as the
  path \<^verbatim>\<open>2.handler.a.b\<close>, does not call \<open>f7\<close> and reports the unhandled-task marker.
\<close>

theorem dotted_task_name_unhandled:
  "fst (session sampleValidator ''cypress.config.js'' sampleConfig
          [(''task'', dottedTasks, sampleConfig)]) = dottedState
   \<and> registered_as dottedState 2 ''task'' dottedTasks
   \<and> map_of (props_of dottedTasks) ''a.b'' = Some (JObj (Function 7) [])
   \<and> taskExecute callFn bracketPath inv1 ''a.b'' (JNum 5) dottedState
       = ipc_send ''promise:fulfilled:inv1'' [ArgNull, ArgValue (JStr ''__cypress_unhandled__'')]
           dottedState
   \<and> taskGetBody sourceText inv1 ''a.b'' dottedState
       = Inr (ipc_send ''promise:fulfilled:inv1'' [ArgNull, ArgValue (JStr (sourceText 7))]
                dottedState)"
proof -
  have a: "registered_as dottedState 2 ''task'' dottedTasks"
    by (simp add: registered_as_def dottedState_def)
  have b: "map_of (props_of dottedTasks) ''a.b'' = Some (JObj (Function 7) [])"
    by (simp add: props_of_def dottedTasks_def fn_def)
  have c: "taskExecute callFn bracketPath inv1 ''a.b'' (JNum 5) dottedState
       = ipc_send ''promise:fulfilled:inv1'' [ArgNull, ArgValue (JStr ''__cypress_unhandled__'')]
           dottedState"
    using dotted_lookup(1)[of bracketPath]
    by (simp add: taskExecute_def util_wrapChildPromise_def taskInvoke_def inv1_def)
  have r: "taskRegistration dottedState = Some \<lparr>event = ''task'', handler = dottedTasks\<rparr>"
    by (simp add: taskRegistration_def dottedState_def constructor_def)
  have d: "taskGetBody sourceText inv1 ''a.b'' dottedState
       = Inr (ipc_send ''promise:fulfilled:inv1'' [ArgNull, ArgValue (JStr (sourceText 7))]
                dottedState)"
    by (simp add: taskGetBody_def r b util_wrapChildPromise_def inv1_def)
  from a b c d show ?thesis by (simp add: dotted_session)
qed

lemma restoreArg_cases:
  "restoreArg arg = JUndefined \<longleftrightarrow>
     arg = JUndefined
     \<or> (\<exists>k ps v. arg = JObj k ps
            \<and> map_of ps ''__cypress_task_no_argument__'' = Some (Data v) \<and> truthy v)"
proof (cases arg)
  case (JObj k ps)
  show ?thesis
  proof (cases "map_of ps ''__cypress_task_no_argument__''")
    case None
    with JObj show ?thesis by (simp add: restoreArg_def read_def)
  next
    case (Some sl)
    with JObj show ?thesis by (cases sl) (auto simp: restoreArg_def read_def)
  qed
qed (auto simp: restoreArg_def read_def)

text \<open>
  Claim C8, as the code has it. When the lookup of the task yields a function, that
  function is called with exactly one argument, the restored one. The restored argument
  is \<^verbatim>\<open>undefined\<close> exactly when the argument is \<^verbatim>\<open>undefined\<close> or an object whose data
  property \<^verbatim>\<open>__cypress_task_no_argument__\<close> is truthy; in every other case it is the
  argument itself.
\<close>

theorem task_argument_restored:
  "(lodash_get bracketPath (registry_value s) (show_nat (eventId i) @ ''.handler.'' @ task)
       = JObj (Function f) ps \<longrightarrow>
      taskExecute callFn bracketPath i task arg s
        = util_wrapChildPromise (\<lambda>evId args. callFn f [restoreArg arg]) i [] s)
   \<and> (restoreArg arg = JUndefined \<longleftrightarrow>
        arg = JUndefined
        \<or> (\<exists>k ps v. arg = JObj k ps
               \<and> map_of ps ''__cypress_task_no_argument__'' = Some (Data v) \<and> truthy v))
   \<and> (restoreArg arg \<noteq> JUndefined \<longrightarrow> restoreArg arg = arg)"
proof (intro conjI impI)
  assume "lodash_get bracketPath (registry_value s) (show_nat (eventId i) @ ''.handler.'' @ task)
       = JObj (Function f) ps"
  then show "taskExecute callFn bracketPath i task arg s
        = util_wrapChildPromise (\<lambda>evId args. callFn f [restoreArg arg]) i [] s"
    by (simp add: taskExecute_def taskInvoke_def util_wrapChildPromise_def)
next
  show "restoreArg arg = JUndefined \<longleftrightarrow>
        arg = JUndefined
        \<or> (\<exists>k ps v. arg = JObj k ps
               \<and> map_of ps ''__cypress_task_no_argument__'' = Some (Data v) \<and> truthy v)"
    by (rule restoreArg_cases)
next
  assume "restoreArg arg \<noteq> JUndefined"
  then show "restoreArg arg = arg" by (simp add: restoreArg_def split: if_splits)
qed

text \<open>Claim C8 evaluated on the marker object \<open>{__cypress_task_no_argument__: true}\<close>
  and on the number \<open>5\<close>.\<close>

theorem task_argument_restored_witness:
  "lodash_get noBrackets (registry_value dottedState)
       (show_nat (eventId inv1) @ ''.handler.'' @ ''log'') = JObj (Function 8) []
   \<and> restoreArg noArgumentMarker = JUndefined
   \<and> taskExecute echo noBrackets inv1 ''log'' noArgumentMarker dottedState
       = ipc_send ''promise:fulfilled:inv1''
           [ArgNull, ArgValue (js_array [JNum 8, JUndefined])] dottedState
   \<and> restoreArg (JNum 5) \<noteq> JUndefined
   \<and> restoreArg (JNum 5) = JNum 5"
proof -
  have l: "lodash_get noBrackets (registry_value dottedState)
       (show_nat (eventId inv1) @ ''.handler.'' @ ''log'') = JObj (Function 8) []"
    using dotted_lookup(2)[of noBrackets] by (simp add: inv1_def fn_def)
  have m: "restoreArg noArgumentMarker = JUndefined"
    using task_argument_restored[of noBrackets dottedState inv1 "''log''" 8 "[]" echo noArgumentMarker]
    by (simp add: noArgumentMarker_def)
  have n: "restoreArg (JNum 5) \<noteq> JUndefined" by (simp add: restoreArg_def read_def)
  from task_argument_restored[of noBrackets dottedState inv1 "''log''" 8 "[]" echo noArgumentMarker]
    task_argument_restored[of noBrackets dottedState inv1 "''log''" 8 "[]" echo "JNum 5"]
    l m n
  show ?thesis by (simp add: util_wrapChildPromise_def echo_def inv1_def js_array_def)
qed

text \<open>Claim C8 as stated fails: the string \<^verbatim>\<open>__cypress_task_no_argument__\<close> reaches the
  handler as it is, and an object that carries the marker property next to other data is
  replaced by \<^verbatim>\<open>undefined\<close>.\<close>

theorem string_sentinel_not_restored:
  "restoreArg (JStr ''__cypress_task_no_argument__'') = JStr ''__cypress_task_no_argument__''
   \<and> taskExecute echo noBrackets inv1 ''log'' (JStr ''__cypress_task_no_argument__'') dottedState
       = ipc_send ''promise:fulfilled:inv1''
           [ArgNull, ArgValue (js_array [JNum 8, JStr ''__cypress_task_no_argument__''])]
           dottedState
   \<and> restoreArg (JObj Plain [(''__cypress_task_no_argument__'', Data (JNum 1)),
                              (''payload'', Data (JNum 2))]) = JUndefined"
proof -
  have l: "lodash_get noBrackets (registry_value dottedState)
       (show_nat 2 @ ''.handler.'' @ ''log'') = JObj (Function 8) []"
    using dotted_lookup(2)[of noBrackets] by (simp add: fn_def)
  show ?thesis
    using l by (simp add: restoreArg_def read_def taskExecute_def taskInvoke_def
        util_wrapChildPromise_def echo_def inv1_def js_array_def)
qed

lemma registered_as_iff:
  "(\<exists>h. registered_as s i ev h) \<longleftrightarrow>
     (\<exists>r. map_of (registeredEventsById s) i = Some r \<and> event r = ev)"
proof
  assume "\<exists>h. registered_as s i ev h"
  then show "\<exists>r. map_of (registeredEventsById s) i = Some r \<and> event r = ev"
    by (auto simp: registered_as_def)
next
  assume "\<exists>r. map_of (registeredEventsById s) i = Some r \<and> event r = ev"
  then obtain r where r: "map_of (registeredEventsById s) i = Some r" "event r = ev" by blast
  then have "registered_as s i ev (handler r)" by (simp add: registered_as_def)
  then show "\<exists>h. registered_as s i ev h" by blast
qed

lemma taskRegistration_None:
  "taskRegistration s = None \<longleftrightarrow> (\<forall>i h. \<not> registered_as s i ''task'' h)"
proof
  assume n: "taskRegistration s = None"
  show "\<forall>i h. \<not> registered_as s i ''task'' h"
  proof (intro allI notI)
    fix i h assume "registered_as s i ''task'' h"
    then have m: "map_of (registeredEventsById s) i = Some \<lparr>event = ''task'', handler = h\<rparr>"
      by (simp add: registered_as_def)
    then have "(i, \<lparr>event = ''task'', handler = h\<rparr>) \<in> set (registeredEventsById s)"
      by (rule map_of_SomeD)
    then have "i \<in> fst ` set (registeredEventsById s)" by force
    then have "i \<in> set (sort (remdups (map fst (registeredEventsById s))))" by simp
    moreover have "case map_of (registeredEventsById s) i of
                      Some r \<Rightarrow> event r = ''task''
                    | None \<Rightarrow> False" by (simp add: m)
    ultimately have "List.find
             (\<lambda>i. case map_of (registeredEventsById s) i of
                      Some r \<Rightarrow> event r = ''task''
                    | None \<Rightarrow> False)
             (sort (remdups (map fst (registeredEventsById s)))) \<noteq> None"
      unfolding find_None_iff by blast
    with n show False
      by (auto simp: taskRegistration_def split: option.splits dest!: find_SomeD)
  qed
next
  assume a: "\<forall>i h. \<not> registered_as s i ''task'' h"
  show "taskRegistration s = None"
  proof (cases "taskRegistration s")
    case None
    then show ?thesis .
  next
    case (Some r)
    then obtain i where "map_of (registeredEventsById s) i = Some r" "event r = ''task''"
      by (auto simp: taskRegistration_def split: option.splits dest!: find_SomeD)
    then have "\<exists>h. registered_as s i ''task'' h" unfolding registered_as_iff by blast
    with a show ?thesis by blast
  qed
qed

text \<open>
  Claim C9. Without a Registration for \<^verbatim>\<open>task\<close>, \<^verbatim>\<open>taskGetKeys\<close> and
  \<^verbatim>\<open>taskGetBody\<close> throw \<^verbatim>\<open>TypeError\<close> and send nothing; with one, each sends one message
  with a null error and, as value, the array of the keys or the text of the body.
\<close>

theorem task_introspection_needs_registration:
  "((\<forall>j h. \<not> registered_as s j ''task'' h) \<longrightarrow>
       taskGetKeys i s = Inl TypeError \<and> taskGetBody sourceText i task s = Inl TypeError)
   \<and> ((\<exists>j h. registered_as s j ''task'' h) \<longrightarrow>
       (\<exists>keys. taskGetKeys i s
           = Inr (ipc_send (''promise:fulfilled:'' @ invocationId i)
                    [ArgNull, ArgValue (js_array (map JStr keys))] s))
     \<and> (\<exists>body. taskGetBody sourceText i task s
           = Inr (ipc_send (''promise:fulfilled:'' @ invocationId i)
                    [ArgNull, ArgValue (JStr body)] s)))"
proof (intro conjI impI)
  assume "\<forall>j h. \<not> registered_as s j ''task'' h"
  then have n: "taskRegistration s = None" by (simp add: taskRegistration_None)
  show "taskGetKeys i s = Inl TypeError" by (simp add: taskGetKeys_def n)
  show "taskGetBody sourceText i task s = Inl TypeError" by (simp add: taskGetBody_def n)
next
  assume "\<exists>j h. registered_as s j ''task'' h"
  then have "taskRegistration s \<noteq> None" by (simp add: taskRegistration_None)
  then obtain r where r: "taskRegistration s = Some r" by auto
  have a: "js_array xs \<noteq> JUndefined" for xs by (simp add: js_array_def)
  show "\<exists>keys. taskGetKeys i s
           = Inr (ipc_send (''promise:fulfilled:'' @ invocationId i)
                    [ArgNull, ArgValue (js_array (map JStr keys))] s)"
    by (rule exI[of _ "lodash_keys (handler r)"])
       (simp add: taskGetKeys_def r util_wrapChildPromise_def a)
  show "\<exists>body. taskGetBody sourceText i task s
           = Inr (ipc_send (''promise:fulfilled:'' @ invocationId i)
                    [ArgNull, ArgValue (JStr body)] s)"
    by (rule exI[of _ "case map_of (props_of (handler r)) task of
                         Some (JObj (Function f) ps) \<Rightarrow> sourceText f | _ \<Rightarrow> []"])
       (simp add: taskGetBody_def r util_wrapChildPromise_def
          split: option.splits jsval.splits objkind.splits)
qed

text \<open>Claim C9 evaluated on a fresh instance and on the registry of the session above.\<close>

theorem task_introspection_witness:
  "taskGetKeys inv1 (constructor ''cypress.config.js'') = Inl TypeError
   \<and> taskGetBody sampleSource inv1 ''log'' (constructor ''cypress.config.js'') = Inl TypeError
   \<and> registered_as dottedState 2 ''task'' dottedTasks
   \<and> taskGetKeys inv1 dottedState
       = Inr (ipc_send ''promise:fulfilled:inv1''
                [ArgNull, ArgValue (js_array [JStr ''a.b'', JStr ''log''])] dottedState)"
proof -
  have n: "\<forall>j h. \<not> registered_as (constructor ''cypress.config.js'') j ''task'' h"
    by (simp add: registered_as_def constructor_def)
  have e: "registered_as dottedState 2 ''task'' dottedTasks"
    by (simp add: registered_as_def dottedState_def)
  have r: "taskRegistration dottedState = Some \<lparr>event = ''task'', handler = dottedTasks\<rparr>"
    by (simp add: taskRegistration_def dottedState_def constructor_def)
  have k: "taskGetKeys inv1 dottedState
       = Inr (ipc_send ''promise:fulfilled:inv1''
                [ArgNull, ArgValue (js_array [JStr ''a.b'', JStr ''log''])] dottedState)"
    by (simp add: taskGetKeys_def r util_wrapChildPromise_def lodash_keys_def dottedTasks_def
        inv1_def js_array_def)
  from task_introspection_needs_registration[of "constructor ''cypress.config.js''" inv1 sampleSource "''log''"]
    task_introspection_needs_registration[of dottedState inv1 sampleSource "''log''"] n e k
  show ?thesis by blast
qed

end
